theory Spec2Isabelle
  imports Complex_Main "HOL-Library.Word"
begin

unbundle bit_operations_syntax

section \<open>JavaScript values used as index keys\<close>

text \<open>
  A JavaScript number is an IEEE 754 double. For the comparisons of the key comparator
  only its place on the extended real line matters: \<open>NaN\<close> compares false with
  everything, the infinities bound the finite values, and the two zeros are equal. The
  finite doubles are a subset of the reals, so a statement over every \<open>Fin r\<close> covers
  every finite double.
\<close>

datatype jsnum = NaN | NegInf | Fin real | PosInf

text \<open>
  A string is its list of UTF-16 code units; a \<open>Date\<close> carries its time value
  (epoch milliseconds, \<open>NaN\<close> for an invalid date). Arrays are the only objects the
  verified code paths meet besides dates.
\<close>

datatype jsval =
    Undefined
  | Null
  | Boolean bool
  | Number jsnum
  | String "nat list"
  | Date jsnum
  | Array "jsval list"

text \<open>The \<open>typeof\<close> operator; the result is a JavaScript string (its code units).\<close>

definition str :: "string \<Rightarrow> nat list" where
  "str s = map of_char s"

fun typeof :: "jsval \<Rightarrow> nat list" where
  "typeof Undefined = str ''undefined''"
| "typeof Null = str ''object''"
| "typeof (Boolean b) = str ''boolean''"
| "typeof (Number n) = str ''number''"
| "typeof (String s) = str ''string''"
| "typeof (Date t) = str ''object''"
| "typeof (Array xs) = str ''object''"

text \<open>\<open>a < b\<close> on two strings: lexicographic on code units.\<close>

fun js_str_lt :: "nat list \<Rightarrow> nat list \<Rightarrow> bool" where
  "js_str_lt [] [] = False"
| "js_str_lt [] (y # ys) = True"
| "js_str_lt (x # xs) [] = False"
| "js_str_lt (x # xs) (y # ys) = (x < y \<or> (x = y \<and> js_str_lt xs ys))"

text \<open>\<open>a < b\<close> on two numbers.\<close>

fun js_num_lt :: "jsnum \<Rightarrow> jsnum \<Rightarrow> bool" where
  "js_num_lt NaN _ = False"
| "js_num_lt _ NaN = False"
| "js_num_lt NegInf NegInf = False"
| "js_num_lt NegInf _ = True"
| "js_num_lt (Fin x) NegInf = False"
| "js_num_lt (Fin x) (Fin y) = (x < y)"
| "js_num_lt (Fin x) PosInf = True"
| "js_num_lt PosInf _ = False"

text \<open>
  The relational operator \<open>a < b\<close> on the operand pairs the comparator reaches: both
  of one primitive type (booleans and \<open>null\<close> are compared through \<open>ToNumber\<close>:
  \<open>false\<close> is 0, \<open>true\<close> is 1, \<open>null\<close> is 0). Operands of different types
  never reach it in \<open>_sortCompare\<close>, which orders them by type name first.
\<close>

fun js_lt :: "jsval \<Rightarrow> jsval \<Rightarrow> bool" where
  "js_lt (String a) (String b) = js_str_lt a b"
| "js_lt (Number a) (Number b) = js_num_lt a b"
| "js_lt (Boolean a) (Boolean b) = (\<not> a \<and> b)"
| "js_lt _ _ = False"

definition js_gt :: "jsval \<Rightarrow> jsval \<Rightarrow> bool" where
  "js_gt a b = js_lt b a"

subsection \<open>The typeless comparison helpers\<close>

fun getComparibleValue :: "jsval \<Rightarrow> jsval" where
  "getComparibleValue Undefined = Null"
| "getComparibleValue Null = Null"
| "getComparibleValue (Date t) = Number t"
| "getComparibleValue v = v"

definition sortCompare :: "jsval \<Rightarrow> jsval \<Rightarrow> int" where
  "sortCompare v1 v2 =
     (let val1 = getComparibleValue v1; val2 = getComparibleValue v2 in
      if val1 = Null \<and> val2 \<noteq> Null then -1
      else if val1 \<noteq> Null \<and> val2 = Null then 1
      else if typeof val1 \<noteq> typeof val2 \<and> js_str_lt (typeof val1) (typeof val2) then -1
      else if typeof val1 \<noteq> typeof val2 \<and> js_str_lt (typeof val2) (typeof val1) then 1
      else if js_lt val1 val2 then -1
      else if js_gt val1 val2 then 1
      else 0)"


text \<open>
  Strict equality \<open>a === b\<close> on primitives. \<open>NaN\<close> is unequal to itself. Objects
  (dates, arrays) are equal only when they are the same object; the helpers below turn
  every date into its number first, and a key is never an array, so object identity is
  not needed and two objects compare unequal here.
\<close>

fun js_strict_eq :: "jsval \<Rightarrow> jsval \<Rightarrow> bool" where
  "js_strict_eq Undefined Undefined = True"
| "js_strict_eq Null Null = True"
| "js_strict_eq (Boolean a) (Boolean b) = (a = b)"
| "js_strict_eq (Number a) (Number b) = (a \<noteq> NaN \<and> b \<noteq> NaN \<and> a = b)"
| "js_strict_eq (String a) (String b) = (a = b)"
| "js_strict_eq _ _ = False"

definition isEqual :: "jsval \<Rightarrow> jsval \<Rightarrow> bool" where
  "isEqual v1 v2 =
     (let val1 = getComparibleValue v1; val2 = getComparibleValue v2 in
      if typeof val1 \<noteq> typeof val2 then False else js_strict_eq val1 val2)"

definition isLess :: "jsval \<Rightarrow> jsval \<Rightarrow> bool" where
  "isLess v1 v2 =
     (let val1 = getComparibleValue v1; val2 = getComparibleValue v2 in
      if val2 = Null then False
      else if val1 = Null then val2 \<noteq> Null
      else if typeof val1 \<noteq> typeof val2 then js_str_lt (typeof val1) (typeof val2)
      else js_lt val1 val2)"

text \<open>Truthiness, as tested by \<open>while (searchKey)\<close>.\<close>

fun truthy :: "jsval \<Rightarrow> bool" where
  "truthy Undefined = False"
| "truthy Null = False"
| "truthy (Boolean b) = b"
| "truthy (Number n) = (n \<noteq> NaN \<and> n \<noteq> Fin 0)"
| "truthy (String s) = (s \<noteq> [])"
| "truthy (Date t) = True"
| "truthy (Array xs) = True"

section \<open>The in-memory tree \<open>BPlusTree\<close>\<close>

text \<open>
  \<open>BPlusTreeLeafEntryValue\<close>: a record pointer (bytes) and the metadata object.
  \<open>BPlusTreeLeafEntry\<close>: a key and its values. A node owns its children
  (\<open>ltChild\<close> of each entry, \<open>gtChild\<close>); the \<open>prevLeaf\<close> and \<open>nextLeaf\<close> fields of a
  leaf are references to other leaves, resolved through the tree's table of leaves.
\<close>

record entry_value =
  recordPointer :: "nat list"
  metadata :: "(nat list \<times> jsval) list"

type_synonym leaf_entry = "jsval \<times> entry_value list"

datatype node =
    Leaf (entries: "leaf_entry list") (prevLeaf: "nat option") (nextLeaf: "nat option")
  | Node "(jsval \<times> node) list" node

record bplustree =
  root :: node
  leafAt :: "nat \<rightharpoonup> node"
  maxEntriesPerNode :: nat
  uniqueKeys :: bool

subsection \<open>\<open>lastLeaf\<close> and \<open>reverseAll\<close>\<close>

text \<open>
  The loop of \<open>lastLeaf\<close>: \<open>while (!(node instanceof BPlusTreeLeaf)) node = node.gtChild\<close>.
\<close>

fun lastLeaf_loop :: "node \<Rightarrow> node" where
  "lastLeaf_loop (Leaf es p n) = Leaf es p n"
| "lastLeaf_loop (Node es gt) = lastLeaf_loop gt"

text \<open>
  \<open>lastLeaf\<close> runs the loop and ends without a \<open>return\<close> statement, so the caller
  receives \<open>undefined\<close>, here \<open>None\<close>.
\<close>

definition lastLeaf :: "bplustree \<Rightarrow> node option" where
  "lastLeaf t = (let node = lastLeaf_loop (root t) in None)"

text \<open>
  The loop of \<open>reverseAll\<close>: while \<open>leaf\<close> is truthy, push its keys and go to
  \<open>leaf.prevLeaf\<close>. A chain of references need not end, so the loop is a partial
  function; a reference to no leaf is the \<open>TypeError\<close> of reading a property of it.
\<close>

partial_function (option) reverseAll_loop ::
  "(nat \<rightharpoonup> node) \<Rightarrow> node option \<Rightarrow> jsval list \<Rightarrow> jsval list option" where
  "reverseAll_loop tbl leaf all =
     (case leaf of
        None \<Rightarrow> Some all
      | Some (Node es gt) \<Rightarrow> None
      | Some (Leaf es p n) \<Rightarrow>
          (case p of
             None \<Rightarrow> reverseAll_loop tbl None (all @ map fst es)
           | Some i \<Rightarrow> reverseAll_loop tbl (tbl i) (all @ map fst es)))"

definition reverseAll :: "bplustree \<Rightarrow> jsval list option" where
  "reverseAll t = reverseAll_loop (leafAt t) (lastLeaf t) []"


subsection \<open>\<open>findLeaf\<close> and the \<open>in\<close> operator of \<open>search\<close>\<close>

datatype error =
    TypeError
  | DevLargeOffsetsOnly
  | OffsetTooBig
  | TooMuchWaste
  | NotEnoughFreeSpace
  | CannotGrow
  | WriteFailed
  | ReferenceError
  | StepMustReturnPromise
  | DuplicateKey
  | KeyNotFound
  | NoSpaceInLeaf
  | SmallPtrsDeprecated
  | NoTreeId
  | RecordPointerTooLarge
  | ValueNotFound
  | CurrentValueRequired
  | LockTimeout
  | ExtDataNotRead

text \<open>
  \<open>findLeaf\<close>: at a node, the first entry with \<open>_isLess(key, entry.key)\<close> sends the
  search into its \<open>ltChild\<close>; with no such entry it goes into \<open>gtChild\<close>.
\<close>

function findLeaf_node :: "jsval \<Rightarrow> node \<Rightarrow> node"
  and findLeaf_entries :: "jsval \<Rightarrow> (jsval \<times> node) list \<Rightarrow> node \<Rightarrow> node" where
  "findLeaf_node key (Leaf es p n) = Leaf es p n"
| "findLeaf_node key (Node es gt) = findLeaf_entries key es gt"
| "findLeaf_entries key [] gt = findLeaf_node key gt"
| "findLeaf_entries key ((k, ltChild) # es) gt =
     (if isLess key k then findLeaf_node key ltChild else findLeaf_entries key es gt)"
  by pat_completeness auto
termination
  by (relation "measure (\<lambda>x. case x of
         Inl (key, nd) \<Rightarrow> 2 * size nd
       | Inr (key, es, gt) \<Rightarrow> 2 * (size_list (size_prod (\<lambda>k. 0) size) es + size gt) + 1)")
    auto

definition findLeaf :: "bplustree \<Rightarrow> jsval \<Rightarrow> node" where
  "findLeaf t key = findLeaf_node key (root t)"

text \<open>\<open>Array.prototype.shift\<close>: the first element, or \<open>undefined\<close> on an empty array.\<close>

fun shift :: "jsval list \<Rightarrow> jsval \<times> jsval list" where
  "shift [] = (Undefined, [])"
| "shift (x # xs) = (x, xs)"

text \<open>
  The \<open>while (searchKey)\<close> loop of the \<open>in\<close> branch. \<open>val\<close> is the array of
  needles the caller passed; the entry is looked up with
  \<open>leaf.entries.find(entry => _isEqual(entry.key, val))\<close>.
\<close>

function search_in_loop ::
  "bplustree \<Rightarrow> jsval \<Rightarrow> jsval list \<Rightarrow> jsval \<Rightarrow> node option \<Rightarrow> bool \<Rightarrow> leaf_entry list
     \<Rightarrow> error + leaf_entry list" where
  "search_in_loop t val sortedKeys searchKey leaf trySameLeaf results =
     (if \<not> truthy searchKey then Inr results
      else
        (case (if \<not> trySameLeaf then Some (findLeaf t searchKey) else leaf) of
           None \<Rightarrow> Inl TypeError
         | Some (Node es gt) \<Rightarrow> Inl TypeError
         | Some (Leaf es p n) \<Rightarrow>
             (case find (\<lambda>entry. isEqual (fst entry) val) es of
                None \<Rightarrow>
                  if trySameLeaf
                  then search_in_loop t val sortedKeys searchKey (Some (Leaf es p n)) False results
                  else search_in_loop t val (snd (shift sortedKeys)) (fst (shift sortedKeys))
                         (Some (Leaf es p n)) True results
              | Some entry \<Rightarrow>
                  search_in_loop t val (snd (shift sortedKeys)) (fst (shift sortedKeys))
                    (Some (Leaf es p n)) True (results @ [entry]))))"
  by pat_completeness auto
termination
proof (relation "measure (\<lambda>(t, val, sortedKeys, searchKey, leaf, trySameLeaf, results).
           2 * (length sortedKeys + (if truthy searchKey then 1 else 0))
             + (if trySameLeaf then 1 else 0))", goal_cases)
  case 1
  show ?case by simp
next
  case (2 t val sortedKeys searchKey leaf trySameLeaf results)
  then show ?case by simp
next
  case (3 t val sortedKeys searchKey leaf trySameLeaf results)
  then show ?case by (cases sortedKeys) auto
next
  case (4 t val sortedKeys searchKey leaf trySameLeaf results)
  then show ?case by (cases sortedKeys) auto
qed

text \<open>
  The \<open>in\<close> branch of \<open>search(op, val)\<close>. \<open>val.slice().sort()\<close> is the built-in sort
  with the default comparator, taken as the parameter \<open>defaultSort\<close>.
\<close>

definition search_in :: "(jsval list \<Rightarrow> jsval list) \<Rightarrow> bplustree \<Rightarrow> jsval list \<Rightarrow> error + leaf_entry list" where
  "search_in defaultSort t needles =
     (let sortedKeys = defaultSort needles in
      search_in_loop t (Array needles) (snd (shift sortedKeys)) (fst (shift sortedKeys)) None False [])"


section \<open>The offset encoder\<close>

text \<open>
  A JavaScript array of numbers, with its holes: reading a hole or past the end gives
  \<open>undefined\<close> (\<open>None\<close>), writing past the end extends the array.
\<close>

type_synonym jsarray = "int option list"

definition js_get :: "jsarray \<Rightarrow> nat \<Rightarrow> int option" where
  "js_get xs i = (if i < length xs then xs ! i else None)"

definition js_set :: "jsarray \<Rightarrow> nat \<Rightarrow> int \<Rightarrow> jsarray" where
  "js_set xs i v =
     (if i < length xs then xs[i := Some v]
      else xs @ replicate (i - length xs) None @ [Some v])"

text \<open>
  The bitwise operators work on 32 bits: each operand goes through \<open>ToInt32\<close> (an
  integer is reduced modulo \<open>2^32\<close>, \<open>undefined\<close> becomes 0) and the result is read
  as a signed 32-bit integer.
\<close>

definition toInt32 :: "int option \<Rightarrow> 32 word" where
  "toInt32 v = (case v of None \<Rightarrow> 0 | Some n \<Rightarrow> word_of_int n)"

definition js_bitand :: "int option \<Rightarrow> int option \<Rightarrow> int" where
  "js_bitand a b = sint (toInt32 a AND toInt32 b)"

definition js_bitor :: "int option \<Rightarrow> int option \<Rightarrow> int" where
  "js_bitor a b = sint (toInt32 a OR toInt32 b)"

definition js_bitxor :: "int option \<Rightarrow> int option \<Rightarrow> int" where
  "js_bitxor a b = sint (toInt32 a XOR toInt32 b)"

definition js_shl :: "int option \<Rightarrow> nat \<Rightarrow> int" where
  "js_shl a k = sint (push_bit k (toInt32 a))"

definition maxSignedOffset :: int where
  "maxSignedOffset = 2 ^ 47 - 1"

text \<open>
  The digit loop of \<open>_writeSignedOffset\<close>:
  \<open>b = n & 0xff; bytes[index + 5 - i] = b; n = n <= b ? 0 : (n - b) / 256\<close>.
  The division is exact, \<open>n - b\<close> being a multiple of 256.
\<close>

function writeSignedOffset_loop :: "nat \<Rightarrow> jsarray \<Rightarrow> nat \<Rightarrow> int \<Rightarrow> jsarray" where
  "writeSignedOffset_loop i bytes index n =
     (if i < 6 then
        (let b = js_bitand (Some n) (Some 255) in
         writeSignedOffset_loop (i + 1) (js_set bytes (index + 5 - i) b) index
           (if n \<le> b then 0 else (n - b) div 256))
      else bytes)"
  by pat_completeness auto
termination
  by (relation "measure (\<lambda>(i, bytes, index, n). 6 - i)") auto

definition writeSignedOffset :: "jsarray \<Rightarrow> nat \<Rightarrow> int \<Rightarrow> bool \<Rightarrow> error + jsarray" where
  "writeSignedOffset bytes index offset large =
     (if \<not> large then Inl DevLargeOffsetsOnly
      else
        (let negative = offset < 0;
             offset = (if negative then - offset else offset)
         in if offset > maxSignedOffset then Inl OffsetTooBig
            else
              (let bytes = writeSignedOffset_loop 0 bytes index offset
               in Inr (if negative
                       then js_set bytes index (js_bitor (js_get bytes index) (Some 128))
                       else bytes))))"

text \<open>\<open>_readSignedNumber\<close>, the 4-byte form read when \<open>large\<close> is false.\<close>

definition readSignedNumber :: "jsarray \<Rightarrow> nat \<Rightarrow> int" where
  "readSignedNumber bytes index =
     (let nr = js_bitor (Some (js_bitor (Some (js_bitor
                 (Some (js_shl (Some (js_bitand (js_get bytes index) (Some 127))) 24))
                 (Some (js_shl (js_get bytes (index + 1)) 16))))
                 (Some (js_shl (js_get bytes (index + 2)) 8))))
                 (js_get bytes (index + 3));
          isNegative = js_bitand (js_get bytes index) (Some 128) > 0
      in if isNegative then - nr else nr)"

text \<open>
  The loop of \<open>_readSignedOffset\<close>: \<open>offset += b * Math.pow(2, (5 - i) * 8)\<close>. A byte
  that is \<open>undefined\<close> makes the sum \<open>NaN\<close>, here \<open>None\<close>.
\<close>

function readSignedOffset_loop :: "nat \<Rightarrow> jsarray \<Rightarrow> nat \<Rightarrow> bool \<Rightarrow> int option \<Rightarrow> int option" where
  "readSignedOffset_loop i bytes index isNegative offset =
     (if i < 6 then
        (let b = js_get bytes (index + i);
             b = (if i = 0 \<and> isNegative then Some (js_bitxor b (Some 128)) else b)
         in readSignedOffset_loop (i + 1) bytes index isNegative
              (case (offset, b) of
                 (Some off, Some v) \<Rightarrow> Some (off + v * 2 ^ ((5 - i) * 8))
               | _ \<Rightarrow> None))
      else offset)"
  by pat_completeness auto
termination
  by (relation "measure (\<lambda>(i, bytes, index, isNegative, offset). 6 - i)") auto

definition readSignedOffset :: "jsarray \<Rightarrow> nat \<Rightarrow> bool \<Rightarrow> int option" where
  "readSignedOffset bytes index large =
     (if \<not> large then Some (readSignedNumber bytes index)
      else
        (let isNegative = js_bitand (js_get bytes index) (Some 128) > 0;
             offset = readSignedOffset_loop 0 bytes index isNegative (Some 0)
         in if isNegative then map_option uminus offset else offset))"

declare writeSignedOffset_loop.simps [simp del]
declare readSignedOffset_loop.simps [simp del]


declare search_in_loop.simps [simp del]

text \<open>
  A tree of one leaf that holds the key 5 with one record pointer.
\<close>

definition exampleTree :: bplustree where
  "exampleTree =
     \<lparr> root = Leaf [(Number (Fin 5), [\<lparr>recordPointer = [1], metadata = []\<rparr>])] None None,
       leafAt = Map.empty, maxEntriesPerNode = 3, uniqueKeys = True \<rparr>"

subsection \<open>The key classes named by the specification\<close>

text \<open>
  The keys the index accepts (\<open>_checkNewEntryArgs\<close>): \<open>undefined\<close>, booleans, numbers,
  strings and dates; \<open>null\<close> is treated like \<open>undefined\<close> by the comparison helpers.
\<close>

fun supportedKey :: "jsval \<Rightarrow> bool" where
  "supportedKey (Array xs) = False"
| "supportedKey v = True"

text \<open>A number key that is \<open>NaN\<close>, or a date whose time value is \<open>NaN\<close>.\<close>

fun isNaNKey :: "jsval \<Rightarrow> bool" where
  "isNaNKey (Number n) = (n = NaN)"
| "isNaNKey (Date t) = (t = NaN)"
| "isNaNKey v = False"

text \<open>
  The rank of the specification's classes: absent, boolean, number or date, string.
\<close>

fun keyRank :: "jsval \<Rightarrow> nat" where
  "keyRank Undefined = 0"
| "keyRank Null = 0"
| "keyRank (Boolean b) = 1"
| "keyRank (Number n) = 2"
| "keyRank (Date t) = 2"
| "keyRank (String s) = 3"
| "keyRank (Array xs) = 4"

text \<open>The order on comparable values that the comparator computes.\<close>

definition key_lt :: "jsval \<Rightarrow> jsval \<Rightarrow> bool" where
  "key_lt a b = (keyRank a < keyRank b \<or>
     (keyRank a = keyRank b \<and> js_lt (getComparibleValue a) (getComparibleValue b)))"

section \<open>The key codec\<close>

text \<open>
  \<open>numberToBytes\<close> and \<open>bytesToNumber\<close> come from the package \<open>acebase-core\<close>, and
  \<open>TextEncoder\<close> and \<open>TextDecoder\<close> from the package \<open>text-encoding\<close>; none of them
  is part of this repository. The codec takes the first two as parameters:
  \<open>numberToBytes\<close> gives the 8 bytes of a number, and \<open>bytesToNumber\<close> is called on 8
  bytes only, since it throws on an array of any other length. The text functions are
  written out below as the package has them, which follows the Encoding Standard. A
  string is the list of its UTF-16 code units.
\<close>

text \<open>
  \<open>stringToCodePoints\<close>: a surrogate pair is one code point, a surrogate without its
  partner is replaced by U+FFFD. On these numbers \<open>c & 0x3FF\<close> is \<open>c mod 1024\<close> and
  \<open>a << 10\<close> is \<open>a * 1024\<close>.
\<close>

fun stringToCodePoints :: "nat list \<Rightarrow> nat list" where
  "stringToCodePoints [] = []"
| "stringToCodePoints [c] = (if c < 0xD800 \<or> c > 0xDFFF then [c] else [0xFFFD])"
| "stringToCodePoints (c # d # s) =
     (if c < 0xD800 \<or> c > 0xDFFF then c # stringToCodePoints (d # s)
      else if 0xDC00 \<le> c \<and> c \<le> 0xDFFF then 0xFFFD # stringToCodePoints (d # s)
      else if 0xDC00 \<le> d \<and> d \<le> 0xDFFF
           then (0x10000 + (c mod 1024) * 1024 + d mod 1024) # stringToCodePoints s
           else 0xFFFD # stringToCodePoints (d # s))"

text \<open>
  The handler of the \<open>UTF8Encoder\<close>: the bytes of one code point.
  \<open>code_point >> (6 * count)\<close> is a division by a power of 64 and
  \<open>0x80 | (temp & 0x3F)\<close> is \<open>0x80 + temp mod 64\<close>.
\<close>

definition utf8Bytes :: "nat \<Rightarrow> nat list" where
  "utf8Bytes code_point =
     (if code_point \<le> 0x7F then [code_point]
      else if code_point \<le> 0x7FF then
        [code_point div 64 + 0xC0, 0x80 + code_point mod 64]
      else if code_point \<le> 0xFFFF then
        [code_point div 4096 + 0xE0, 0x80 + code_point div 64 mod 64, 0x80 + code_point mod 64]
      else
        [code_point div 262144 + 0xF0, 0x80 + code_point div 4096 mod 64,
         0x80 + code_point div 64 mod 64, 0x80 + code_point mod 64])"

text \<open>A Unicode scalar value: a code point that is no surrogate.\<close>

definition scalarValue :: "nat \<Rightarrow> bool" where
  "scalarValue cp = (cp < 0xD800 \<or> (0xDFFF < cp \<and> cp \<le> 0x10FFFF))"

text \<open>\<open>textEncoder.encode(key)\<close>.\<close>

definition textEncoder_encode :: "nat list \<Rightarrow> nat list" where
  "textEncoder_encode s = concat (map utf8Bytes (stringToCodePoints s))"

text \<open>
  The handler of the \<open>UTF8Decoder\<close>, run over the bytes with its five variables
  \<open>utf8_code_point\<close>, \<open>utf8_bytes_seen\<close>, \<open>utf8_bytes_needed\<close>,
  \<open>utf8_lower_boundary\<close> and \<open>utf8_upper_boundary\<close>. The decoder is not fatal: a
  malformed sequence gives U+FFFD, and a byte that cannot continue a sequence is put
  back on the stream and read again. At the end of the stream an unfinished sequence
  gives U+FFFD. \<open>bite & 0x1F\<close> is \<open>bite mod 32\<close>, and
  \<open>(utf8_code_point << 6) | (bite & 0x3F)\<close> is \<open>utf8_code_point * 64 + bite mod 64\<close>.
\<close>

function utf8Decode :: "nat \<Rightarrow> nat \<Rightarrow> nat \<Rightarrow> nat \<Rightarrow> nat \<Rightarrow> nat list \<Rightarrow> nat list" where
  "utf8Decode code_point seen needed lower upper [] = (if needed \<noteq> 0 then [0xFFFD] else [])"
| "utf8Decode code_point seen needed lower upper (bite # stream) =
     (if needed = 0 then
        (if bite \<le> 0x7F then bite # utf8Decode code_point seen needed lower upper stream
         else if 0xC2 \<le> bite \<and> bite \<le> 0xDF then
           utf8Decode (bite mod 32) seen 1 lower upper stream
         else if 0xE0 \<le> bite \<and> bite \<le> 0xEF then
           utf8Decode (bite mod 16) seen 2
             (if bite = 0xE0 then 0xA0 else lower) (if bite = 0xED then 0x9F else upper) stream
         else if 0xF0 \<le> bite \<and> bite \<le> 0xF4 then
           utf8Decode (bite mod 8) seen 3
             (if bite = 0xF0 then 0x90 else lower) (if bite = 0xF4 then 0x8F else upper) stream
         else 0xFFFD # utf8Decode code_point seen needed lower upper stream)
      else if \<not> (lower \<le> bite \<and> bite \<le> upper) then
        0xFFFD # utf8Decode 0 0 0 0x80 0xBF (bite # stream)
      else if seen + 1 \<noteq> needed then
        utf8Decode (code_point * 64 + bite mod 64) (seen + 1) needed 0x80 0xBF stream
      else (code_point * 64 + bite mod 64) # utf8Decode 0 0 0 0x80 0xBF stream)"
  by pat_completeness auto
termination
  by (relation "measure (\<lambda>(code_point, seen, needed, lower, upper, stream).
        2 * length stream + (if needed = 0 then 0 else 1))") auto

declare utf8Decode.simps [simp del]

text \<open>\<open>codePointsToString\<close>: a code point above U+FFFF becomes a surrogate pair.\<close>

definition codePointsToString :: "nat list \<Rightarrow> nat list" where
  "codePointsToString code_points =
     concat (map (\<lambda>cp. if cp \<le> 0xFFFF then [cp]
                        else [(cp - 0x10000) div 1024 + 0xD800, (cp - 0x10000) mod 1024 + 0xDC00])
                 code_points)"

text \<open>
  \<open>serializeStream\<close>: the decoder is made with \<open>new TextDecoder()\<close>, so \<open>ignoreBOM\<close>
  is false and a first code point U+FEFF is dropped, in every call of \<open>decode\<close>.
\<close>

definition serializeStream :: "nat list \<Rightarrow> nat list" where
  "serializeStream stream =
     codePointsToString (if stream \<noteq> [] \<and> hd stream = 0xFEFF then tl stream else stream)"

text \<open>
  \<open>textDecoder.decode(Uint8Array.from(keyData))\<close>: \<open>Uint8Array.from\<close> keeps the low
  8 bits of every element.
\<close>

definition textDecoder_decode :: "nat list \<Rightarrow> nat list" where
  "textDecoder_decode bytes =
     serializeStream (utf8Decode 0 0 0 0x80 0xBF (map (\<lambda>b. b mod 256) bytes))"

text \<open>
  \<open>new Date(value)\<close> keeps \<open>TimeClip(value)\<close>: not a number beyond 8.64e15
  milliseconds, the integral part otherwise.
\<close>

fun timeClip :: "jsnum \<Rightarrow> jsnum" where
  "timeClip (Fin r) =
     (if \<bar>r\<bar> > 8640000000000000 then NaN
      else Fin (of_int (if 0 \<le> r then \<lfloor>r\<rfloor> else \<lceil>r\<rceil>)))"
| "timeClip n = NaN"

datatype codec_error = UnsupportedKeyType | UnknownKeyType | MustBe8Bytes

definition KEY_TYPE_UNDEFINED :: nat where "KEY_TYPE_UNDEFINED = 0"
definition KEY_TYPE_STRING :: nat where "KEY_TYPE_STRING = 1"
definition KEY_TYPE_NUMBER :: nat where "KEY_TYPE_NUMBER = 2"
definition KEY_TYPE_BOOLEAN :: nat where "KEY_TYPE_BOOLEAN = 3"
definition KEY_TYPE_DATE :: nat where "KEY_TYPE_DATE = 4"

text \<open>
  \<open>while (keyBytes[keyBytes.length-1] === 0) { keyBytes.pop(); }\<close>; on the empty array
  the element read is \<open>undefined\<close> and the loop stops.
\<close>

function popTrailingZeros :: "nat list \<Rightarrow> nat list" where
  "popTrailingZeros keyBytes =
     (if keyBytes \<noteq> [] \<and> last keyBytes = 0 then popTrailingZeros (butlast keyBytes)
      else keyBytes)"
  by pat_completeness auto
termination
  by (relation "measure length") auto

declare popTrailingZeros.simps [simp del]

text \<open>
  \<open>BPlusTree.getBinaryKeyData\<close>: the switch on \<open>typeof key\<close>. \<open>null\<close> and arrays
  have type \<open>object\<close> and are not dates, so they are refused. The trailing zeros are
  popped off a number only; a date is written with all the bytes of its time value.
\<close>

fun getBinaryKeyData :: "(jsnum \<Rightarrow> nat list) \<Rightarrow> jsval \<Rightarrow> codec_error + nat list" where
  "getBinaryKeyData numberToBytes Undefined = Inr [KEY_TYPE_UNDEFINED, 0]"
| "getBinaryKeyData numberToBytes (String s) =
     (let keyBytes = textEncoder_encode s in Inr (KEY_TYPE_STRING # length keyBytes # keyBytes))"
| "getBinaryKeyData numberToBytes (Number n) =
     (let keyBytes = popTrailingZeros (numberToBytes n)
      in Inr (KEY_TYPE_NUMBER # length keyBytes # keyBytes))"
| "getBinaryKeyData numberToBytes (Boolean b) =
     Inr [KEY_TYPE_BOOLEAN, 1, if b then 1 else 0]"
| "getBinaryKeyData numberToBytes (Date t) =
     (let keyBytes = numberToBytes t in Inr (KEY_TYPE_DATE # length keyBytes # keyBytes))"
| "getBinaryKeyData numberToBytes Null = Inl UnsupportedKeyType"
| "getBinaryKeyData numberToBytes (Array xs) = Inl UnsupportedKeyType"

text \<open>
  Reading \<open>bytes[i]\<close> (\<open>undefined\<close> past the end) and \<open>bytes.slice(from, to)\<close>, which
  clamps to the array.
\<close>

definition byteAt :: "nat list \<Rightarrow> nat \<Rightarrow> nat option" where
  "byteAt bytes i = (if i < length bytes then Some (bytes ! i) else None)"

definition slice :: "nat list \<Rightarrow> nat \<Rightarrow> nat \<Rightarrow> nat list" where
  "slice bytes from to = take (to - from) (drop from bytes)"

record decoded_key =
  decodedKey :: jsval
  keyLength :: "nat option"
  byteLength :: "nat option"

text \<open>
  \<open>BPlusTree.getKeyFromBinary\<close>. A number shorter than 8 bytes gets its trailing zeros
  back; a date is read from the bytes as they are. \<open>bytesToNumber\<close> throws unless it
  is given 8 bytes. With \<open>keyLength\<close> undefined the slice ends at \<open>NaN\<close>, which is
  position 0, and is empty.
\<close>

definition getKeyFromBinary ::
  "(nat list \<Rightarrow> jsnum) \<Rightarrow> nat list \<Rightarrow> nat \<Rightarrow> codec_error + decoded_key" where
  "getKeyFromBinary bytesToNumber bytes index =
     (let keyType = byteAt bytes index;
          index = index + 1;
          keyLen = byteAt bytes index;
          index = index + 1;
          keyData = (case keyLen of None \<Rightarrow> [] | Some l \<Rightarrow> slice bytes index (index + l));
          result = (\<lambda>k. Inr \<lparr> decodedKey = k, keyLength = keyLen, byteLength = map_option (\<lambda>l. l + 2) keyLen \<rparr>)
      in if keyType = Some KEY_TYPE_UNDEFINED then result Undefined
         else if keyType = Some KEY_TYPE_STRING then result (String (textDecoder_decode keyData))
         else if keyType = Some KEY_TYPE_NUMBER then
           (let keyData = (if length keyData < 8
                           then keyData @ drop (length keyData) (replicate 8 0)
                           else keyData)
            in if length keyData \<noteq> 8 then Inl MustBe8Bytes
               else result (Number (bytesToNumber keyData)))
         else if keyType = Some KEY_TYPE_BOOLEAN then
           result (Boolean (byteAt keyData 0 = Some 1))
         else if keyType = Some KEY_TYPE_DATE then
           (if length keyData \<noteq> 8 then Inl MustBe8Bytes
            else result (Date (timeClip (bytesToNumber keyData))))
         else Inl UnknownKeyType)"

text \<open>
  A string every surrogate of which is half of a pair, in 16-bit code units.
\<close>

fun wellFormedString :: "nat list \<Rightarrow> bool" where
  "wellFormedString [] = True"
| "wellFormedString [c] = (c < 0xD800 \<or> (0xDFFF < c \<and> c \<le> 0xFFFF))"
| "wellFormedString (c # d # s) =
     (if c < 0xD800 \<or> (0xDFFF < c \<and> c \<le> 0xFFFF) then wellFormedString (d # s)
      else 0xD800 \<le> c \<and> c \<le> 0xDBFF \<and> 0xDC00 \<le> d \<and> d \<le> 0xDFFF \<and> wellFormedString s)"

text \<open>
  The keys the codec reads back: \<open>undefined\<close>, a well-formed string that does not
  start with U+FEFF and has at most 255 encoded bytes, a finite number, a boolean, a
  date (the time value of a \<open>Date\<close> object is one that \<open>TimeClip\<close> leaves as it is).
\<close>

fun codecKey :: "jsval \<Rightarrow> bool" where
  "codecKey Undefined = True"
| "codecKey (String s) =
     (wellFormedString s \<and> (s = [] \<or> hd s \<noteq> 0xFEFF) \<and> length (textEncoder_encode s) \<le> 255)"
| "codecKey (Number (Fin r)) = True"
| "codecKey (Number n) = False"
| "codecKey (Boolean b) = True"
| "codecKey (Date t) = (timeClip t = t)"
| "codecKey v = False"

text \<open>
  What the codec needs of \<open>acebase-core\<close> at a key: \<open>numberToBytes\<close> gives 8 bytes and
  \<open>bytesToNumber\<close> reads them back.
\<close>

fun numberLibraryReadsBack ::
  "(jsnum \<Rightarrow> nat list) \<Rightarrow> (nat list \<Rightarrow> jsnum) \<Rightarrow> jsval \<Rightarrow> bool" where
  "numberLibraryReadsBack numberToBytes bytesToNumber (Number n) =
     (length (numberToBytes n) = 8 \<and> bytesToNumber (numberToBytes n) = n)"
| "numberLibraryReadsBack numberToBytes bytesToNumber (Date t) =
     (length (numberToBytes t) = 8 \<and> bytesToNumber (numberToBytes t) = t)"
| "numberLibraryReadsBack numberToBytes bytesToNumber v = True"

text \<open>
  A fragment of \<open>numberToBytes\<close> and \<open>bytesToNumber\<close>, for examples: the IEEE 754 bytes
  of 3 and of 0.
\<close>

definition exampleNumberToBytes :: "jsnum \<Rightarrow> nat list" where
  "exampleNumberToBytes n = (if n = Fin 3 then [64, 8, 0, 0, 0, 0, 0, 0] else replicate 8 0)"

definition exampleBytesToNumber :: "nat list \<Rightarrow> jsnum" where
  "exampleBytesToNumber bs = (if bs = [64, 8, 0, 0, 0, 0, 0, 0] then Fin 3 else Fin 0)"

section \<open>Promises and the byte source\<close>

text \<open>
  What a call that returns a promise can do: return a promise that resolves with a
  value, return a promise that rejects with an error, or throw before any promise is
  returned.
\<close>

datatype 'a outcome = Resolved 'a | Rejected error | Thrown error

text \<open>
  \<open>_writeByteLength(bytes, index, length)\<close>: the four bytes of a length, high byte
  first, each \<open>(length >> k) & 0xff\<close> on 32 bits.
\<close>

definition js_sar :: "int option \<Rightarrow> nat \<Rightarrow> int" where
  "js_sar a k = sint (signed_drop_bit k (toInt32 a))"

definition writeByteLength :: "jsarray \<Rightarrow> nat \<Rightarrow> int \<Rightarrow> jsarray" where
  "writeByteLength bytes index len =
     (let bytes = js_set bytes index (js_bitand (Some (js_sar (Some len) 24)) (Some 255));
          bytes = js_set bytes (index + 1) (js_bitand (Some (js_sar (Some len) 16)) (Some 255));
          bytes = js_set bytes (index + 2) (js_bitand (Some (js_sar (Some len) 8)) (Some 255));
          bytes = js_set bytes (index + 3) (js_bitand (Some len) (Some 255))
      in bytes)"

text \<open>
  The byte source behind \<open>_writeFn(data, index)\<close> is the caller's. It is a parameter:
  from the stored content, the data and the position it gives the new content, or the
  error its promise rejects with. \<open>arrayWriteFn\<close> is the one the constructor makes for
  a tree over a byte array: \<open>sourceData[index + i] = data[i]\<close>.
\<close>

type_synonym 'st writeFn = "'st \<Rightarrow> jsarray \<Rightarrow> nat \<Rightarrow> error + 'st"

definition js_put :: "jsarray \<Rightarrow> nat \<Rightarrow> int option \<Rightarrow> jsarray" where
  "js_put xs i v =
     (if i < length xs then xs[i := v] else xs @ replicate (i - length xs) None @ [v])"

fun arrayWrite :: "jsarray \<Rightarrow> jsarray \<Rightarrow> nat \<Rightarrow> jsarray" where
  "arrayWrite sourceData [] index = sourceData"
| "arrayWrite sourceData (d # dat) index = arrayWrite (js_put sourceData index d) dat (index + 1)"

definition arrayWriteFn :: "jsarray writeFn" where
  "arrayWriteFn sourceData dat index = Inr (arrayWrite sourceData dat index)"

section \<open>The free-space allocator\<close>

text \<open>
  A region \<open>{ index, length }\<close> of the file, and the allocator's part of the tree
  object: the list \<open>_fst\<close> of reclaimed regions, \<open>info.byteLength\<close>, \<open>info.freeSpace\<close>,
  \<open>info.freeSpaceIndex\<close>, \<open>_originalByteLength\<close>, \<open>_autoGrow\<close>, and the stored bytes.
\<close>

record block =
  blockIndex :: int
  blockLength :: int

record 'st allocator =
  reclaimed :: "block list"
  infoByteLength :: int
  infoFreeSpace :: int
  infoFreeSpaceIndex :: nat
  originalByteLength :: int
  autoGrow :: bool
  stored :: 'st

text \<open>
  \<open>available.sort((a, b) => a.length < b.length ? -1 : 1)\<close>. The built-in sort is
  modelled as the insertion sort the engine runs on a short array: the elements are
  taken from left to right, and each is put before the first sorted element the
  comparator ranks it under. A region as long as an earlier one stays behind it.
\<close>

definition compareLength :: "block \<Rightarrow> block \<Rightarrow> int" where
  "compareLength a b = (if blockLength a < blockLength b then - 1 else 1)"

fun insertSorted :: "('a \<Rightarrow> 'a \<Rightarrow> int) \<Rightarrow> 'a \<Rightarrow> 'a list \<Rightarrow> 'a list" where
  "insertSorted cmp x [] = [x]"
| "insertSorted cmp x (y # ys) = (if cmp x y < 0 then x # y # ys else y # insertSorted cmp x ys)"

definition sortWith :: "('a \<Rightarrow> 'a \<Rightarrow> int) \<Rightarrow> 'a list \<Rightarrow> 'a list" where
  "sortWith cmp xs = foldl (\<lambda>sortedPart x. insertSorted cmp x sortedPart) [] xs"

text \<open>\<open>Math.round(x * 0.5)\<close> on an integer \<open>x\<close>: halves round up.\<close>

definition roundHalf :: "int \<Rightarrow> int" where
  "roundHalf x = (x + 1) div 2"

text \<open>
  \<open>_growTree(bytesNeeded)\<close>: both header writes are issued; the promise rejects when
  one of them does.
\<close>

definition growTree :: "'st writeFn \<Rightarrow> 'st allocator \<Rightarrow> int \<Rightarrow> unit outcome \<times> 'st allocator" where
  "growTree writeFn a bytesNeeded =
     (if \<not> autoGrow a then (Rejected CannotGrow, a)
      else
        (let grow = bytesNeeded - infoFreeSpace a;
             a = a\<lparr> infoByteLength := infoByteLength a + grow \<rparr>;
             a = a\<lparr> infoFreeSpace := infoFreeSpace a + grow \<rparr>
         in case writeFn (stored a) (writeByteLength [] 0 (infoByteLength a)) 0 of
              Inl e \<Rightarrow>
                (case writeFn (stored a) (writeByteLength [] 0 (infoFreeSpace a)) (infoFreeSpaceIndex a) of
                   Inl e' \<Rightarrow> (Rejected e, a)
                 | Inr st \<Rightarrow> (Rejected e, a\<lparr> stored := st \<rparr>))
            | Inr st \<Rightarrow>
                (case writeFn st (writeByteLength [] 0 (infoFreeSpace a)) (infoFreeSpaceIndex a) of
                   Inl e' \<Rightarrow> (Rejected e', a\<lparr> stored := st \<rparr>)
                 | Inr st' \<Rightarrow> (Resolved (), a\<lparr> stored := st' \<rparr>))))"

text \<open>The local function \<open>go\<close> of \<open>_requestFreeSpace\<close>: carve the region from the tail.\<close>

definition go :: "'st writeFn \<Rightarrow> 'st allocator \<Rightarrow> int \<Rightarrow> block outcome \<times> 'st allocator" where
  "go writeFn a bytesRequired =
     (let index = infoByteLength a - infoFreeSpace a;
          a = a\<lparr> infoFreeSpace := infoFreeSpace a - bytesRequired \<rparr>
      in case writeFn (stored a) (writeByteLength [] 0 (infoFreeSpace a)) (infoFreeSpaceIndex a) of
           Inl e \<Rightarrow> (Rejected e, a)
         | Inr st \<Rightarrow>
             (Resolved \<lparr> blockIndex = index, blockLength = bytesRequired \<rparr>, a\<lparr> stored := st \<rparr>))"

definition requestFreeSpace ::
  "'st writeFn \<Rightarrow> 'st allocator \<Rightarrow> int \<Rightarrow> block outcome \<times> 'st allocator" where
  "requestFreeSpace writeFn a bytesRequired =
     (let available = filter (\<lambda>block. blockLength block \<ge> bytesRequired) (reclaimed a)
      in if length available > 0 then
           (let best = hd (sortWith compareLength available)
            in (Resolved best, a\<lparr> reclaimed := remove1 best (reclaimed a) \<rparr>))
         else
           (let wastedSpace = foldl (\<lambda>total block. total + blockLength block) 0 (reclaimed a);
                maxWaste = roundHalf (originalByteLength a)
            in if wastedSpace > maxWaste then (Thrown TooMuchWaste, a)
               else if infoFreeSpace a \<ge> bytesRequired then go writeFn a bytesRequired
               else if autoGrow a then
                 (case growTree writeFn a bytesRequired of
                    (Resolved u, a') \<Rightarrow> go writeFn a' bytesRequired
                  | (Rejected e, a') \<Rightarrow> (Rejected e, a')
                  | (Thrown e, a') \<Rightarrow> (Thrown e, a'))
               else (Rejected NotEnoughFreeSpace, a)))"

text \<open>
  An allocator state for examples: two reclaimed regions of 501 and 300 bytes, a file of
  2000 bytes with a free tail of 700, created with 1601 bytes.
\<close>

definition exampleAllocator :: "jsarray allocator" where
  "exampleAllocator =
     \<lparr> reclaimed = [\<lparr>blockIndex = 100, blockLength = 501\<rparr>, \<lparr>blockIndex = 900, blockLength = 300\<rparr>],
       infoByteLength = 2000, infoFreeSpace = 700, infoFreeSpaceIndex = 7,
       originalByteLength = 1601, autoGrow = False, stored = replicate 12 (Some 0) \<rparr>"

section \<open>The transaction engine \<open>TX\<close>\<close>

text \<open>
  A queued step \<open>{ action, rollback, state }\<close> over a shared state \<open>'s\<close> (the stored
  bytes and the objects the closures hold). Calling \<open>action()\<close> issues its effect and
  returns a promise that later resolves or rejects, or returns something that is not a
  promise, or throws. \<open>rollback\<close> is absent (not a function) or, when called, issues its effect
  and returns a promise, or throws before returning one.
\<close>

datatype action_result = Resolves | Rejects error | NotAPromise | ActionThrows error

datatype rollback_result = RollbackResolves | RollbackRejects error | RollbackThrows error

datatype step_state = Idle | Success | Failed

record 's tx_step =
  stepAction :: "'s \<Rightarrow> action_result \<times> 's"
  stepRollback :: "('s \<Rightarrow> rollback_result \<times> 's) option"

text \<open>
  \<open>this._queue.map(step => { const p = step.action(); ... })\<close>: the actions are called
  in queue order; one that throws or returns no promise makes \<open>execute\<close> throw at
  once, with the later actions not called.
\<close>

fun startActions :: "'s tx_step list \<Rightarrow> 's \<Rightarrow> (error + action_result list) \<times> 's" where
  "startActions [] s = (Inr [], s)"
| "startActions (step # steps) s =
     (case stepAction step s of
        (NotAPromise, s') \<Rightarrow> (Inl StepMustReturnPromise, s')
      | (ActionThrows e, s') \<Rightarrow> (Inl e, s')
      | (r, s') \<Rightarrow>
          (case startActions steps s' of
             (Inl e, s'') \<Rightarrow> (Inl e, s'')
           | (Inr rs, s'') \<Rightarrow> (Inr (r # rs), s'')))"

text \<open>
  The promises settle in an order the byte source decides. \<open>settled\<close> lists the steps
  whose \<open>then\<close>/\<open>catch\<close> handler has run when the \<open>catch\<close> handler of
  \<open>Promise.all(actions)\<close> runs: such a step is in state \<open>success\<close> or \<open>failed\<close>, every
  other step is still \<open>idle\<close>.
\<close>

definition stateOf :: "nat list \<Rightarrow> action_result list \<Rightarrow> nat \<Rightarrow> step_state" where
  "stateOf settled results i =
     (if i \<in> set settled \<and> i < length results
      then (case results ! i of Rejects e \<Rightarrow> Failed | r \<Rightarrow> Success)
      else Idle)"

text \<open>The error \<open>Promise.all(actions)\<close> rejects with: that of the first step to fail.\<close>

fun firstFailure :: "nat list \<Rightarrow> action_result list \<Rightarrow> error option" where
  "firstFailure [] results = None"
| "firstFailure (i # settled) results =
     (if i < length results
      then (case results ! i of Rejects e \<Rightarrow> Some e | r \<Rightarrow> firstFailure settled results)
      else firstFailure settled results)"

text \<open>
  \<open>this._queue.map(step => step.state === 'failed' || typeof step.rollback !== 'function'
  ? null : step.rollback())\<close>, from step \<open>i\<close> on. A rollback that throws ends the
  \<open>map\<close>: the later rollbacks are not called. The result lists the steps whose rollback
  was called, what each call returned, and the error thrown, if any.
\<close>

fun callRollbacks ::
  "'s tx_step list \<Rightarrow> (nat \<Rightarrow> step_state) \<Rightarrow> nat \<Rightarrow> 's
     \<Rightarrow> nat list \<times> rollback_result list \<times> error option \<times> 's" where
  "callRollbacks [] st i s = ([], [], None, s)"
| "callRollbacks (step # steps) st i s =
     (if st i = Failed then callRollbacks steps st (i + 1) s
      else
        (case stepRollback step of
           None \<Rightarrow> callRollbacks steps st (i + 1) s
         | Some rollback \<Rightarrow>
             (case rollback s of
                (RollbackThrows e, s') \<Rightarrow> ([i], [], Some e, s')
              | (r, s') \<Rightarrow>
                  (case callRollbacks steps st (i + 1) s' of
                     (called, rs, thrown, s'') \<Rightarrow> (i # called, r # rs, thrown, s'')))))"

fun firstRollbackError :: "rollback_result list \<Rightarrow> error option" where
  "firstRollbackError [] = None"
| "firstRollbackError (RollbackRejects e # rs) = Some e"
| "firstRollbackError (r # rs) = firstRollbackError rs"

text \<open>
  What \<open>execute\<close> has done when its promise settles: the outcome, the
  \<open>rollbackError\<close> attached to the error, the steps whose rollback was called, and the
  shared state.
\<close>

record 's tx_result =
  txOutcome :: "unit outcome"
  txRollbackError :: "error option"
  txRolledBack :: "nat list"
  txState :: 's

text \<open>
  \<open>TX.execute(true)\<close>, the parallel mode. With no failure among the settled steps the
  transaction resolves (once every step has settled). After the rollbacks the \<open>then\<close>
  handler rethrows \<open>err\<close> and the \<open>catch\<close> handler behind it receives what was thrown:
  \<open>err.rollbackError\<close> is the error of the rollback that rejected (taken in queue
  order) or, when every rollback resolved, \<open>err\<close> itself. A rollback that throws makes
  the \<open>catch\<close> handler of \<open>Promise.all(actions)\<close> throw: the promise rejects with that
  error.
\<close>

definition execute_parallel :: "'s tx_step list \<Rightarrow> nat list \<Rightarrow> 's \<Rightarrow> 's tx_result" where
  "execute_parallel queue settled s =
     (case startActions queue s of
        (Inl e, s') \<Rightarrow>
          \<lparr> txOutcome = Thrown e, txRollbackError = None, txRolledBack = [], txState = s' \<rparr>
      | (Inr results, s') \<Rightarrow>
          (case firstFailure settled results of
             None \<Rightarrow>
               \<lparr> txOutcome = Resolved (), txRollbackError = None, txRolledBack = [], txState = s' \<rparr>
           | Some err \<Rightarrow>
               (case callRollbacks queue (stateOf settled results) 0 s' of
                  (called, rs, Some thrown, s'') \<Rightarrow>
                    \<lparr> txOutcome = Rejected thrown, txRollbackError = None,
                      txRolledBack = called, txState = s'' \<rparr>
                | (called, rs, None, s'') \<Rightarrow>
                    \<lparr> txOutcome = Rejected err,
                      txRollbackError =
                        Some (case firstRollbackError rs of None \<Rightarrow> err | Some err2 \<Rightarrow> err2),
                      txRolledBack = called, txState = s'' \<rparr>)))"




section \<open>The public mutators of \<open>BinaryBPlusTree\<close>\<close>

text \<open>
  What a method that returns a promise does at the call: it returns a promise that
  resolves or rejects, or it throws before returning.
\<close>

datatype call_result = CallResolves | CallRejects error | CallThrows error

text \<open>
  A leaf entry as \<open>_getLeaf\<close> builds it. The values of an entry that keeps them in an
  \<open>ext_data\<close> block are behind a getter that throws until they have been loaded.

  The calls a mutator makes on its collaborators, in order: the lock registry
  (\<open>ThreadSafe\<close>, not part of the sources at hand), \<open>findLeaf\<close>, \<open>_writeLeaf\<close>, the
  \<open>ext_data\<close> block of an entry.
\<close>

record bentry =
  entryKey :: jsval
  entryValues :: "entry_value list"
  entryHasExtData :: bool
  entryExtDataLoaded :: bool

datatype effect =
    LockCalled "nat list"
  | LockReleased
  | FindLeafCalled jsval
  | WriteLeafCalled "bentry list"
  | ExtRemoveValueCalled "nat list"
  | AddToLeafCalled jsval

record tree_info =
  hasLargePtrs :: bool
  isUnique :: bool
  treeId :: "nat list option"
  metadataKeys :: "nat list list"

text \<open>
  The collaborators, over the state \<open>'s\<close> of the byte source: what the promise of
  \<open>ThreadSafe.lock\<close> does, the leaf \<open>findLeaf\<close> resolves with, what \<open>_writeLeaf\<close> and
  \<open>extData.removeValue\<close> do. \<open>addToLeaf\<close> stands for the part of \<open>add\<close> that works on
  the leaf found (append the value or insert the entry, write, rebuild or split), with
  the calls it makes.
\<close>

record 's collaborators =
  lockResult :: "'s \<Rightarrow> error option"
  findLeafResult :: "'s \<Rightarrow> jsval \<Rightarrow> error + bentry list"
  writeLeafResult :: "'s \<Rightarrow> bentry list \<Rightarrow> error option \<times> 's"
  extRemoveValueResult :: "'s \<Rightarrow> nat list \<Rightarrow> error option \<times> 's"
  addToLeaf :: "'s \<Rightarrow> bentry list \<Rightarrow> jsval \<Rightarrow> entry_value \<Rightarrow> error option \<times> effect list \<times> 's"

text \<open>\<open>_checkNewEntryArgs\<close>. A record pointer is a byte array in this model.\<close>

fun isStorableType :: "jsval \<Rightarrow> bool" where
  "isStorableType Null = False"
| "isStorableType (Array xs) = False"
| "isStorableType v = True"

definition checkNewEntryArgs ::
  "jsval \<Rightarrow> nat list \<Rightarrow> nat list list \<Rightarrow> (nat list \<times> jsval) list \<Rightarrow> error option" where
  "checkNewEntryArgs k rp mdKeys md =
     (if \<not> isStorableType k then Some TypeError
      else if length rp > 255 then Some RecordPointerTooLarge
      else if list_ex (\<lambda>mdKey. \<not> List.member (map fst md) mdKey) mdKeys then Some TypeError
      else None)"

text \<open>\<open>Array.prototype.findIndex\<close>, with \<open>None\<close> for -1.\<close>

fun findIndex :: "('a \<Rightarrow> bool) \<Rightarrow> 'a list \<Rightarrow> nat option" where
  "findIndex P [] = None"
| "findIndex P (x # xs) = (if P x then Some 0 else map_option Suc (findIndex P xs))"

text \<open>\<open>arr.splice(i, 1)\<close>.\<close>

definition removeAt :: "nat \<Rightarrow> 'a list \<Rightarrow> 'a list" where
  "removeAt i xs = take i xs @ drop (i + 1) xs"

definition compareBinary :: "nat list \<Rightarrow> nat list \<Rightarrow> bool" where
  "compareBinary val1 val2 = (length val1 = length val2 \<and> list_all2 (\<lambda>b c. c = b) val1 val2)"

text \<open>
  \<open>add(key, recordPointer, metadata)\<close>: three checks that throw, then
  \<open>ThreadSafe.lock(this.id)\<close>, then \<open>findLeaf(key)\<close>, the work on the leaf, and
  \<open>lock.release()\<close> on both ways out. When the lock promise rejects, the \<open>catch\<close>
  handler calls \<open>release\<close> on a lock that is undefined.
\<close>

definition binary_add ::
  "'s collaborators \<Rightarrow> tree_info \<Rightarrow> 's \<Rightarrow> jsval \<Rightarrow> nat list \<Rightarrow> (nat list \<times> jsval) list
     \<Rightarrow> call_result \<times> effect list \<times> 's" where
  "binary_add c info s k rp md =
     (if \<not> hasLargePtrs info then (CallThrows SmallPtrsDeprecated, [], s)
      else
        (case checkNewEntryArgs k rp (metadataKeys info) md of
           Some err \<Rightarrow> (CallThrows err, [], s)
         | None \<Rightarrow>
             (case treeId info of
                None \<Rightarrow> (CallThrows NoTreeId, [], s)
              | Some tid \<Rightarrow>
                  (case lockResult c s of
                     Some e \<Rightarrow> (CallRejects TypeError, [LockCalled tid], s)
                   | None \<Rightarrow>
                       (case findLeafResult c s k of
                          Inl e \<Rightarrow>
                            (CallRejects e, [LockCalled tid, FindLeafCalled k, LockReleased], s)
                        | Inr leaf \<Rightarrow>
                            (case addToLeaf c s leaf k \<lparr> recordPointer = rp, metadata = md \<rparr> of
                               (Some e, effs, s') \<Rightarrow>
                                 (CallRejects e,
                                  [LockCalled tid, FindLeafCalled k] @ effs @ [LockReleased], s')
                             | (None, effs, s') \<Rightarrow>
                                 (CallResolves,
                                  [LockCalled tid, FindLeafCalled k] @ effs @ [LockReleased], s')))))))"

text \<open>Reading \<open>entry.values\<close> throws: the values are in \<open>ext_data\<close> and not loaded.\<close>

definition valuesUnread :: "bentry \<Rightarrow> bool" where
  "valuesUnread entry = (entryHasExtData entry \<and> \<not> entryExtDataLoaded entry)"

text \<open>The tail of \<open>remove\<close> and of \<open>update\<close>: \<open>return this._writeLeaf(leaf)\<close>.\<close>

definition writeLeafAndSettle ::
  "'s collaborators \<Rightarrow> 's \<Rightarrow> effect list \<Rightarrow> bentry list \<Rightarrow> call_result \<times> effect list \<times> 's" where
  "writeLeafAndSettle c s effs leaf =
     (case writeLeafResult c s leaf of
        (None, s') \<Rightarrow> (CallResolves, effs @ [WriteLeafCalled leaf], s')
      | (Some e, s') \<Rightarrow> (CallRejects e, effs @ [WriteLeafCalled leaf], s'))"

text \<open>
  \<open>remove(key, recordPointer)\<close>: one check that throws, then \<open>findLeaf(key)\<close> and the
  change of the leaf found.
\<close>

definition binary_remove ::
  "'s collaborators \<Rightarrow> tree_info \<Rightarrow> 's \<Rightarrow> jsval \<Rightarrow> nat list option
     \<Rightarrow> call_result \<times> effect list \<times> 's" where
  "binary_remove c info s k rp =
     (if \<not> hasLargePtrs info then (CallThrows SmallPtrsDeprecated, [], s)
      else
        (case findLeafResult c s k of
           Inl e \<Rightarrow> (CallRejects e, [FindLeafCalled k], s)
         | Inr leaf \<Rightarrow>
             (case findIndex (\<lambda>entry. isEqual k (entryKey entry)) leaf of
                None \<Rightarrow> (CallResolves, [FindLeafCalled k], s)
              | Some entryIndex \<Rightarrow>
                  (if isUnique info \<or> rp = None
                   then writeLeafAndSettle c s [FindLeafCalled k] (removeAt entryIndex leaf)
                   else if valuesUnread (leaf ! entryIndex)
                   then (CallRejects ExtDataNotRead, [FindLeafCalled k], s)
                   else if length (entryValues (leaf ! entryIndex)) = 1
                   then writeLeafAndSettle c s [FindLeafCalled k] (removeAt entryIndex leaf)
                   else if entryHasExtData (leaf ! entryIndex)
                   then (case extRemoveValueResult c s (the rp) of
                           (None, s') \<Rightarrow>
                             (CallResolves, [FindLeafCalled k, ExtRemoveValueCalled (the rp)], s')
                         | (Some e, s') \<Rightarrow>
                             (CallRejects e, [FindLeafCalled k, ExtRemoveValueCalled (the rp)], s'))
                   else
                     (case findIndex (\<lambda>val. compareBinary (recordPointer val) (the rp))
                             (entryValues (leaf ! entryIndex)) of
                        None \<Rightarrow> (CallResolves, [FindLeafCalled k], s)
                      | Some valueIndex \<Rightarrow>
                          writeLeafAndSettle c s [FindLeafCalled k]
                            (leaf[entryIndex := (leaf ! entryIndex)
                               \<lparr> entryValues := removeAt valueIndex (entryValues (leaf ! entryIndex)) \<rparr>]))))))"

text \<open>
  \<open>update(key, newRecordPointer, currentRecordPointer, newMetadata)\<close>: \<open>findLeaf(key)\<close>
  at once, then the change of the leaf found; every error is a rejection.
\<close>

definition binary_update ::
  "'s collaborators \<Rightarrow> tree_info \<Rightarrow> 's \<Rightarrow> jsval \<Rightarrow> nat list \<Rightarrow> nat list option
     \<Rightarrow> (nat list \<times> jsval) list \<Rightarrow> call_result \<times> effect list \<times> 's" where
  "binary_update c info s k newRecordPointer currentRecordPointer newMetadata =
     (let newEntryValue = \<lparr> recordPointer = newRecordPointer, metadata = newMetadata \<rparr> in
      case findLeafResult c s k of
        Inl e \<Rightarrow> (CallRejects e, [FindLeafCalled k], s)
      | Inr leaf \<Rightarrow>
          (case findIndex (\<lambda>entry. isEqual (entryKey entry) k) leaf of
             None \<Rightarrow> (CallRejects KeyNotFound, [FindLeafCalled k], s)
           | Some entryIndex \<Rightarrow>
               (if isUnique info
                then writeLeafAndSettle c s [FindLeafCalled k]
                       (leaf[entryIndex := (leaf ! entryIndex)\<lparr> entryValues := [newEntryValue] \<rparr>])
                else
                  (case currentRecordPointer of
                     None \<Rightarrow> (CallRejects CurrentValueRequired, [FindLeafCalled k], s)
                   | Some current \<Rightarrow>
                       (if valuesUnread (leaf ! entryIndex)
                        then (CallRejects ExtDataNotRead, [FindLeafCalled k], s)
                        else
                          (case findIndex (\<lambda>val. compareBinary (recordPointer val) current)
                                  (entryValues (leaf ! entryIndex)) of
                             None \<Rightarrow> (CallRejects ValueNotFound, [FindLeafCalled k], s)
                           | Some valueIndex \<Rightarrow>
                               writeLeafAndSettle c s [FindLeafCalled k]
                                 (leaf[entryIndex := (leaf ! entryIndex)
                                    \<lparr> entryValues := (entryValues (leaf ! entryIndex))
                                         [valueIndex := newEntryValue] \<rparr>])))))))"

subsection \<open>\<open>transaction\<close>\<close>

text \<open>\<open>BinaryBPlusTreeTransactionOperation\<close>: the three tagged operations.\<close>

datatype operation =
    OpAdd jsval "nat list" "(nat list \<times> jsval) list"
  | OpRemove jsval "nat list option"
  | OpUpdate jsval "nat list" "nat list option"

text \<open>
  The \<open>switch (op.type)\<close> of \<open>processNextOperation\<close>; \<open>update\<close> is called with three
  arguments, so its metadata is undefined.
\<close>

fun callOperation ::
  "'s collaborators \<Rightarrow> tree_info \<Rightarrow> 's \<Rightarrow> operation \<Rightarrow> call_result \<times> effect list \<times> 's" where
  "callOperation c info s (OpAdd k rp md) = binary_add c info s k rp md"
| "callOperation c info s (OpRemove k rp) = binary_remove c info s k rp"
| "callOperation c info s (OpUpdate k newValue currentValue) =
     binary_update c info s k newValue currentValue []"

text \<open>
  What \<open>transaction\<close> leaves behind: how its promise settles, the \<open>operations\<close> array
  (it is the caller's array, changed in place), the calls made and the state.
\<close>

record 's transaction_result =
  trOutcome :: "unit outcome"
  trOperations :: "operation list"
  trEffects :: "effect list"
  trState :: 's

text \<open>
  \<open>processNextOperation\<close>. \<open>previous\<close> is the operation of the enclosing call, whose
  \<open>catch\<close> handler receives what is thrown here (the first call runs in the promise
  executor, which turns a throw into a rejection and puts nothing back). On the empty
  array \<open>shift()\<close> gives \<open>undefined\<close> and reading \<open>op.type\<close> throws a \<open>TypeError\<close>.
  \<open>success\<close> resolves when no operation is left.
\<close>

fun processNextOperation ::
  "'s collaborators \<Rightarrow> tree_info \<Rightarrow> operation option \<Rightarrow> operation list \<Rightarrow> effect list \<Rightarrow> 's
     \<Rightarrow> 's transaction_result" where
  "processNextOperation c info previous [] effs s =
     \<lparr> trOutcome = Rejected TypeError,
       trOperations = (case previous of None \<Rightarrow> [] | Some prev \<Rightarrow> [prev]),
       trEffects = effs, trState = s \<rparr>"
| "processNextOperation c info previous (op # operations) effs s =
     (case callOperation c info s op of
        (CallThrows e, effs', s') \<Rightarrow>
          \<lparr> trOutcome = Rejected e,
            trOperations = (case previous of None \<Rightarrow> operations | Some prev \<Rightarrow> prev # operations),
            trEffects = effs @ effs', trState = s' \<rparr>
      | (CallRejects e, effs', s') \<Rightarrow>
          \<lparr> trOutcome = Rejected e, trOperations = op # operations,
            trEffects = effs @ effs', trState = s' \<rparr>
      | (CallResolves, effs', s') \<Rightarrow>
          (if operations = []
           then \<lparr> trOutcome = Resolved (), trOperations = [], trEffects = effs @ effs', trState = s' \<rparr>
           else processNextOperation c info (Some op) operations (effs @ effs') s'))"

definition transaction ::
  "'s collaborators \<Rightarrow> tree_info \<Rightarrow> operation list \<Rightarrow> 's \<Rightarrow> 's transaction_result" where
  "transaction c info operations s = processNextOperation c info None operations [] s"

text \<open>
  The operations in the words of the specification: each in turn, until one fails;
  the failed one is put back in front of those not yet run.
\<close>

fun operationsInOrder ::
  "'s collaborators \<Rightarrow> tree_info \<Rightarrow> operation list \<Rightarrow> effect list \<Rightarrow> 's \<Rightarrow> 's transaction_result" where
  "operationsInOrder c info [] effs s =
     \<lparr> trOutcome = Resolved (), trOperations = [], trEffects = effs, trState = s \<rparr>"
| "operationsInOrder c info (op # operations) effs s =
     (case callOperation c info s op of
        (CallResolves, effs', s') \<Rightarrow> operationsInOrder c info operations (effs @ effs') s'
      | (CallRejects e, effs', s') \<Rightarrow>
          \<lparr> trOutcome = Rejected e, trOperations = op # operations,
            trEffects = effs @ effs', trState = s' \<rparr>
      | (CallThrows e, effs', s') \<Rightarrow>
          \<lparr> trOutcome = Rejected e, trOperations = op # operations,
            trEffects = effs @ effs', trState = s' \<rparr>)"

text \<open>No operation that gets its turn throws before it returns its promise.\<close>

fun settleByPromise :: "'s collaborators \<Rightarrow> tree_info \<Rightarrow> operation list \<Rightarrow> 's \<Rightarrow> bool" where
  "settleByPromise c info [] s = True"
| "settleByPromise c info (op # operations) s =
     (case callOperation c info s op of
        (CallResolves, effs', s') \<Rightarrow> settleByPromise c info operations s'
      | (CallRejects e, effs', s') \<Rightarrow> True
      | (CallThrows e, effs', s') \<Rightarrow> False)"

text \<open>
  Collaborators for examples over a tree of one leaf, the state being its entries:
  the lock is granted, \<open>findLeaf\<close> gives the leaf, every write succeeds, and \<open>add\<close>
  appends the new entry.
\<close>

definition exampleCollaborators :: "(bentry list) collaborators" where
  "exampleCollaborators =
     \<lparr> lockResult = (\<lambda>s. None),
       findLeafResult = (\<lambda>s k. Inr s),
       writeLeafResult = (\<lambda>s leaf. (None, leaf)),
       extRemoveValueResult = (\<lambda>s rp. (None, s)),
       addToLeaf = (\<lambda>s leaf k v.
          (None, [AddToLeafCalled k],
           leaf @ [\<lparr> entryKey = k, entryValues = [v], entryHasExtData = False,
                      entryExtDataLoaded = False \<rparr>])) \<rparr>"

definition exampleInfo :: tree_info where
  "exampleInfo =
     \<lparr> hasLargePtrs = True, isUnique = True, treeId = Some (str ''tree''), metadataKeys = [] \<rparr>"

definition exampleLeaf :: "bentry list" where
  "exampleLeaf =
     [ \<lparr> entryKey = String (str ''a''), entryValues = [\<lparr> recordPointer = [1], metadata = [] \<rparr>],
         entryHasExtData = False, entryExtDataLoaded = False \<rparr> ]"

section \<open>\<open>_rebuildLeaf\<close> and its transaction\<close>

text \<open>
  \<open>_rebuildLeaf\<close> copies a leaf to a newly allocated region and repoints its
  neighbours and its parent in one parallel transaction. The plan records what the
  call finds and what its steps would write, for a leaf without \<open>ext_data\<close> and once
  \<open>_requestFreeSpace\<close> has given the region:
  \<^item> the image of the new leaf, or the error \<open>builder.createLeaf\<close> throws inside
    \<open>_writeLeaf\<close> when the entries do not fit the new length (\<open>_writeLeaf\<close> turns it
    into a rejected promise);
  \<^item> for a leaf that has a previous leaf (\<open>leaf.getPrevious\<close>), the position of that
    leaf's next-pointer with the old and the new offset; likewise for a leaf that has a
    next leaf (\<open>leaf.getNext\<close>, \<open>leaf.nextLeafIndex > 0\<close>);
  \<^item> whether the leaf has a parent node, the image of the parent node pointing to the
    new leaf and the one pointing to the old leaf, which the last rollback would write,
    or the error \<open>builder.createNode\<close> throws inside \<open>_writeNode\<close>;
  \<^item> whether the caller passed \<open>options.nextLeaf\<close>.
\<close>

record rebuild_plan =
  newLeafIndex :: nat
  newLeafBytes :: "error + jsarray"
  prevLeafPointer :: "(nat \<times> int \<times> int) option"
  nextLeafPointer :: "(nat \<times> int \<times> int) option"
  hasParentNode :: bool
  parentNodeIndex :: nat
  parentNodeBytes :: "error + jsarray"
  parentNodeBytesBefore :: "error + jsarray"
  optionsNextLeaf :: bool

text \<open>An action or a rollback that is one call of \<open>_writeFn\<close>.\<close>

definition writeAction :: "'s writeFn \<Rightarrow> jsarray \<Rightarrow> nat \<Rightarrow> 's \<Rightarrow> action_result \<times> 's" where
  "writeAction writeFn bytes index s =
     (case writeFn s bytes index of Inl e \<Rightarrow> (Rejects e, s) | Inr s' \<Rightarrow> (Resolves, s'))"

definition writeRollback :: "'s writeFn \<Rightarrow> jsarray \<Rightarrow> nat \<Rightarrow> 's \<Rightarrow> rollback_result \<times> 's" where
  "writeRollback writeFn bytes index s =
     (case writeFn s bytes index of
        Inl e \<Rightarrow> (RollbackRejects e, s)
      | Inr s' \<Rightarrow> (RollbackResolves, s'))"

text \<open>
  The steps that repoint a neighbour: the action writes
  \<open>_writeSignedOffset([], 0, newOffset, true)\<close> at the pointer, the rollback the old
  offset. \<open>_writeSignedOffset\<close> throws on an offset that is too big.
\<close>

definition pointerStep :: "'s writeFn \<Rightarrow> nat \<times> int \<times> int \<Rightarrow> 's tx_step" where
  "pointerStep writeFn p =
     (case p of (pointerIndex, oldOffset, newOffset) \<Rightarrow>
        \<lparr> stepAction = (\<lambda>s.
             case writeSignedOffset [] 0 newOffset True of
               Inl e \<Rightarrow> (ActionThrows e, s)
             | Inr bytes \<Rightarrow> writeAction writeFn bytes pointerIndex s),
          stepRollback = Some (\<lambda>s.
             case writeSignedOffset [] 0 oldOffset True of
               Inl e \<Rightarrow> (RollbackThrows e, s)
             | Inr bytes \<Rightarrow> writeRollback writeFn bytes pointerIndex s) \<rparr>)"

text \<open>
  The queue, in the order of the \<open>tx.queue\<close> calls. The rollback of the first step
  starts with \<open>console.error(`... ${err.message}`)\<close>, where no \<open>err\<close> is in scope:
  it throws a \<open>ReferenceError\<close> before it releases the allocated region. \<open>_writeNode\<close>
  throws what \<open>createNode\<close> throws, before it returns a promise. The rollback of the
  last step reads \<open>options.nextLeaf.parentNode\<close> before it rewrites the parent node:
  without \<open>options.nextLeaf\<close> it throws a \<open>TypeError\<close>.
\<close>

definition rebuildLeaf_queue :: "'s writeFn \<Rightarrow> rebuild_plan \<Rightarrow> 's tx_step list" where
  "rebuildLeaf_queue writeFn plan =
     [ \<lparr> stepAction = (\<lambda>s.
            case newLeafBytes plan of
              Inl e \<Rightarrow> (Rejects e, s)
            | Inr bytes \<Rightarrow> writeAction writeFn bytes (newLeafIndex plan) s),
         stepRollback = Some (\<lambda>s. (RollbackThrows ReferenceError, s)) \<rparr> ]
     @ (case prevLeafPointer plan of None \<Rightarrow> [] | Some p \<Rightarrow> [pointerStep writeFn p])
     @ (case nextLeafPointer plan of None \<Rightarrow> [] | Some p \<Rightarrow> [pointerStep writeFn p])
     @ [ \<lparr> stepAction = (\<lambda>s.
            case parentNodeBytes plan of
              Inl e \<Rightarrow> (ActionThrows e, s)
            | Inr bytes \<Rightarrow> writeAction writeFn bytes (parentNodeIndex plan) s),
           stepRollback = Some (\<lambda>s.
             if optionsNextLeaf plan
             then (case parentNodeBytesBefore plan of
                     Inl e \<Rightarrow> (RollbackThrows e, s)
                   | Inr bytes \<Rightarrow> writeRollback writeFn bytes (parentNodeIndex plan) s)
             else (RollbackThrows TypeError, s)) \<rparr> ]"

text \<open>
  \<open>_rebuildLeaf\<close> from the \<open>then\<close> handler of \<open>_requestFreeSpace\<close> on. The new leaf
  object is made without \<open>tree\<close>, and the setter of \<open>nextLeafIndex\<close> reads
  \<open>this.tree.info\<close> when the index it is given is positive: for a leaf that has a next
  leaf, \<open>newLeaf.nextLeafIndex = leaf.nextLeafIndex\<close> throws a \<open>TypeError\<close> before any
  step is queued. For a leaf without parent, \<open>leaf.parentNode.gtChildIndex = ...\<close>
  throws likewise. What is thrown inside the handler, also by \<open>tx.execute\<close>, rejects
  the promise (the last \<open>catch\<close> wraps the error in a new one that quotes its message).
  When the transaction resolves, the old region is given back to the allocator, which
  is no part of the state here.
\<close>

definition rebuildLeaf :: "'s writeFn \<Rightarrow> rebuild_plan \<Rightarrow> nat list \<Rightarrow> 's \<Rightarrow> 's tx_result" where
  "rebuildLeaf writeFn plan settled s =
     (if nextLeafPointer plan \<noteq> None then
        \<lparr> txOutcome = Rejected TypeError, txRollbackError = None, txRolledBack = [], txState = s \<rparr>
      else if \<not> hasParentNode plan then
        \<lparr> txOutcome = Rejected TypeError, txRollbackError = None, txRolledBack = [], txState = s \<rparr>
      else
        (let result = execute_parallel (rebuildLeaf_queue writeFn plan) settled s
         in case txOutcome result of
              Thrown e \<Rightarrow> result\<lparr> txOutcome := Rejected e \<rparr>
            | outcome \<Rightarrow> result))"

text \<open>
  An example: 14 stored bytes, the parent node at 0 (two bytes, the second its child
  pointer), the next-pointer of the previous leaf at 2 (offset 5), and at 8 the six
  bytes of the leaf, which is the last leaf of the tree. The new leaf would go to
  position 14, six bytes further, so the pointers to it are larger by 6. Its entries
  do not fit the grown length, as when \<open>add\<close> calls \<open>_rebuildLeaf\<close> for an entry
  larger than a tenth of the leaf.
\<close>

definition exampleStored :: jsarray where
  "exampleStored = map Some [7, 30, 0, 0, 0, 0, 0, 5, 1, 2, 3, 4, 5, 6]"

definition examplePlan :: rebuild_plan where
  "examplePlan =
     \<lparr> newLeafIndex = 14, newLeafBytes = Inl NoSpaceInLeaf,
       prevLeafPointer = Some (2, 5, 11), nextLeafPointer = None,
       hasParentNode = True, parentNodeIndex = 0, parentNodeBytes = Inr (map Some [7, 36]),
       parentNodeBytesBefore = Inr (map Some [7, 30]), optionsNextLeaf = False \<rparr>"

text \<open>
  The first step rejects at once; the writes of the other two steps have completed
  when the \<open>catch\<close> handler of the transaction runs.
\<close>

definition exampleSettled :: "nat list" where
  "exampleSettled = [1, 2, 0]"

section \<open>The key comparator\<close>

lemma js_str_lt_irrefl: "\<not> js_str_lt a a"
  by (induction a) auto

lemma js_str_lt_trans: "js_str_lt a b \<Longrightarrow> js_str_lt b c \<Longrightarrow> js_str_lt a c"
proof (induction a b arbitrary: c rule: js_str_lt.induct)
  case (4 x xs y ys)
  then show ?case by (cases c) auto
qed (auto elim: js_str_lt.elims)

lemma js_str_lt_total: "js_str_lt a b \<or> a = b \<or> js_str_lt b a"
  by (induction a b rule: js_str_lt.induct) auto

lemma js_num_lt_irrefl: "\<not> js_num_lt a a"
  by (cases a) auto

lemma js_num_lt_trans: "js_num_lt a b \<Longrightarrow> js_num_lt b c \<Longrightarrow> js_num_lt a c"
  by (cases a; cases b; cases c) auto

lemma js_num_lt_total: "a \<noteq> NaN \<Longrightarrow> b \<noteq> NaN \<Longrightarrow> js_num_lt a b \<or> a = b \<or> js_num_lt b a"
  by (cases a; cases b) auto

lemma sortCompare_key_lt:
  assumes "supportedKey a" "supportedKey b"
  shows "sortCompare a b = (if key_lt a b then - 1 else if key_lt b a then 1 else 0)"
  using assms
  by (cases a; cases b) (auto simp add: sortCompare_def key_lt_def js_gt_def str_def Let_def)


lemma keyRank_getComparibleValue: "keyRank (getComparibleValue a) = keyRank a"
  by (cases a) auto

lemma getComparibleValue_idem: "getComparibleValue (getComparibleValue a) = getComparibleValue a"
  by (cases a) auto

lemma key_lt_cong:
  "getComparibleValue a = getComparibleValue a' \<Longrightarrow> getComparibleValue b = getComparibleValue b'
     \<Longrightarrow> key_lt a b = key_lt a' b'"
  unfolding key_lt_def
  by (metis keyRank_getComparibleValue)

lemma key_lt_irrefl: "\<not> key_lt a a"
  by (cases a) (auto simp add: key_lt_def js_str_lt_irrefl js_num_lt_irrefl)

lemma key_lt_trans: "key_lt a b \<Longrightarrow> key_lt b c \<Longrightarrow> key_lt a c"
  unfolding key_lt_def
  by (cases a; cases b; cases c)
     (auto dest: js_str_lt_trans js_num_lt_trans)

lemma key_lt_total:
  assumes "supportedKey a" "supportedKey b" "\<not> isNaNKey a" "\<not> isNaNKey b"
  shows "key_lt a b \<or> getComparibleValue a = getComparibleValue b \<or> key_lt b a"
  using assms js_str_lt_total js_num_lt_total
  by (cases a; cases b) (auto simp add: key_lt_def)

text \<open>
  C2, as amended. For every two (and three) keys of the supported types other than
  \<open>NaN\<close> and dates with a \<open>NaN\<close> time value, \<open>_sortCompare\<close> is a total order on
  the comparable values: it returns -1, 0 or 1, is reflexive, antisymmetric and
  transitive, and returns 0 exactly for equal comparable values (so \<open>undefined\<close> and
  \<open>null\<close> are one key, and a date is the number of its time value). An absent key sorts
  before a boolean, a boolean before a number or date, a number or date before a string;
  within a class the keys compare by \<open><\<close>.
\<close>

theorem sortCompare_total_order:
  assumes "supportedKey a" "supportedKey b" "supportedKey c"
    and "\<not> isNaNKey a" "\<not> isNaNKey b" "\<not> isNaNKey c"
  shows "sortCompare a b \<in> {- 1, 0, 1}
    \<and> sortCompare a a = 0
    \<and> sortCompare b a = - sortCompare a b
    \<and> (sortCompare a b \<le> 0 \<and> sortCompare b c \<le> 0 \<longrightarrow> sortCompare a c \<le> 0)
    \<and> (sortCompare a b = 0 \<longleftrightarrow> getComparibleValue a = getComparibleValue b)
    \<and> (keyRank a < keyRank b \<longrightarrow> sortCompare a b = - 1)
    \<and> (\<forall>t. sortCompare (Date t) b = sortCompare (Number t) b)
    \<and> (\<forall>t. sortCompare a (Date t) = sortCompare a (Number t))
    \<and> (keyRank a = keyRank b \<longrightarrow>
         sortCompare a b =
           (if js_lt (getComparibleValue a) (getComparibleValue b) then - 1
            else if js_lt (getComparibleValue b) (getComparibleValue a) then 1 else 0))"
proof -
  note ch = sortCompare_key_lt
  have asym: "\<And>x y. key_lt x y \<Longrightarrow> \<not> key_lt y x"
    using key_lt_irrefl key_lt_trans by blast
  have eq_imp: "\<And>x y. getComparibleValue x = getComparibleValue y \<Longrightarrow> \<not> key_lt x y"
    using key_lt_cong [OF _ refl] key_lt_irrefl by blast
  have ab: "sortCompare a b = (if key_lt a b then - 1 else if key_lt b a then 1 else 0)"
    using assms(1,2) by (rule ch)
  have ba: "sortCompare b a = (if key_lt b a then - 1 else if key_lt a b then 1 else 0)"
    using assms(2,1) by (rule ch)
  have bc: "sortCompare b c = (if key_lt b c then - 1 else if key_lt c b then 1 else 0)"
    using assms(2,3) by (rule ch)
  have ac: "sortCompare a c = (if key_lt a c then - 1 else if key_lt c a then 1 else 0)"
    using assms(1,3) by (rule ch)
  have aa: "sortCompare a a = 0"
    using ch [OF assms(1,1)] key_lt_irrefl by simp
  have c1: "sortCompare a b \<in> {- 1, 0, 1}" using ab by simp
  have c3: "sortCompare b a = - sortCompare a b" using ab ba asym by auto
  have c4: "sortCompare a b \<le> 0 \<and> sortCompare b c \<le> 0 \<longrightarrow> sortCompare a c \<le> 0"
  proof
    assume h: "sortCompare a b \<le> 0 \<and> sortCompare b c \<le> 0"
    then have nba: "\<not> key_lt b a" and ncb: "\<not> key_lt c b"
      using ab bc asym by (auto split: if_splits)
    have "\<not> key_lt c a"
    proof
      assume ca: "key_lt c a"
      from key_lt_total [OF assms(1,2,4,5)] nba
      consider "key_lt a b" | "getComparibleValue a = getComparibleValue b" by blast
      then show False
      proof cases
        case 1
        have "key_lt c b" using ca 1 by (rule key_lt_trans)
        with ncb show False by simp
      next
        case 2
        then have "key_lt c a = key_lt c b" by (rule key_lt_cong [OF refl])
        with ca ncb show False by simp
      qed
    qed
    then show "sortCompare a c \<le> 0" using ac by simp
  qed
  have c5: "sortCompare a b = 0 \<longleftrightarrow> getComparibleValue a = getComparibleValue b"
    using ab key_lt_total [OF assms(1,2,4,5)] eq_imp [of a b] eq_imp [of b a] by auto
  have c6: "keyRank a < keyRank b \<longrightarrow> sortCompare a b = - 1"
    using ab by (simp add: key_lt_def)
  have c7: "\<forall>t. sortCompare (Date t) b = sortCompare (Number t) b"
    by (simp add: sortCompare_def)
  have c8: "\<forall>t. sortCompare a (Date t) = sortCompare a (Number t)"
    by (simp add: sortCompare_def)
  have c9: "keyRank a = keyRank b \<longrightarrow>
         sortCompare a b =
           (if js_lt (getComparibleValue a) (getComparibleValue b) then - 1
            else if js_lt (getComparibleValue b) (getComparibleValue a) then 1 else 0)"
    using ab by (auto simp add: key_lt_def)
  from c1 aa c3 c4 c5 c6 c7 c8 c9 show ?thesis by blast
qed

text \<open>
  C2 as stated fails at \<open>NaN\<close>, which is a number: it compares equal to every number,
  so \<open>1 \<le> NaN \<le> 0\<close> under the comparator while \<open>1 > 0\<close>.
\<close>

theorem sortCompare_NaN_counterexample:
  "sortCompare (Number (Fin 1)) (Number NaN) \<le> 0
   \<and> sortCompare (Number NaN) (Number (Fin 0)) \<le> 0
   \<and> \<not> sortCompare (Number (Fin 1)) (Number (Fin 0)) \<le> 0"
  by (simp add: sortCompare_def js_gt_def)


theorem sortCompare_total_order_witness:
  "sortCompare (Boolean True) (Number (Fin 5)) = - 1
   \<and> sortCompare (Number (Fin 5)) (Boolean True) = 1
   \<and> sortCompare (Boolean True) (Boolean True) = 0"
  using sortCompare_total_order [of "Boolean True" "Number (Fin 5)" "String (str ''a'')"]
  by simp

section \<open>The offset encoder: round trip\<close>

lemma sint_small:
  fixes w :: "32 word"
  assumes "uint w < 2 ^ 31"
  shows "sint w = uint w"
proof -
  have "- (2 ^ 31) \<le> uint w"
    by (rule order_trans [of _ 0]) simp_all
  then have "signed_take_bit 31 (uint w) = uint w"
    using assms by (rule signed_take_bit_int_eq_self)
  then show ?thesis by (simp add: sint_uint)
qed

lemma int_and_255: "(k :: int) AND 255 = k mod 256"
proof -
  have "k AND mask 8 = k mod 2 ^ 8"
    by (simp only: take_bit_eq_mask [symmetric] take_bit_eq_mod)
  then show ?thesis by (simp add: mask_eq_exp_minus_1)
qed

lemma int_and_128_small:
  fixes d :: int
  assumes "0 \<le> d" "d < 128"
  shows "d AND 128 = 0"
proof -
  have "take_bit 7 d = d" using assms by (simp add: take_bit_int_eq_self)
  then have "\<not> bit d 7" by (metis bit_take_bit_iff less_irrefl)
  then have "d AND 2 ^ 7 = 0"
    by (rule and_exp_eq_0_iff_not_bit [THEN iffD2])
  then show ?thesis by simp
qed

lemma int_or_128:
  fixes d :: int
  assumes "0 \<le> d" "d < 128"
  shows "d OR 128 = d + 128"
  using disjunctive_add_eq_or [OF int_and_128_small [OF assms]] by simp

lemma int_and_128_big: 
  fixes d :: int
  assumes "0 \<le> d" "d < 128"
  shows "(d + 128) AND 128 = 128"
proof -
  have "(d OR 128) AND 128 = 128" by (simp add: bit.conj_disj_distrib2 int_and_128_small [OF assms])
  then show ?thesis by (simp add: int_or_128 [OF assms])
qed

lemma int_xor_128:
  fixes d :: int
  assumes "0 \<le> d" "d < 128"
  shows "(d + 128) XOR 128 = d"
proof -
  have "d + 128 = d XOR 128"
    using disjunctive_add_eq_xor [OF int_and_128_small [OF assms]] by simp
  then show ?thesis by (simp add: xor.assoc)
qed

lemma uint_word_of_int_small:
  fixes a :: int
  assumes "0 \<le> a" "a < 2 ^ 31"
  shows "uint (word_of_int a :: 32 word) = a"
proof -
  have "a < 2 ^ 32" using assms(2) by simp
  then have "take_bit 32 a = a" using assms(1) by (simp only: take_bit_int_eq_self)
  then show ?thesis by (simp add: uint_word_of_int_eq)
qed

lemma js_bitand_255: "js_bitand (Some n) (Some 255) = n mod 256"
proof -
  let ?w = "(word_of_int n :: 32 word) AND word_of_int 255"
  have "uint ?w = take_bit 32 n AND 255"
    by (simp add: uint_and uint_word_of_int_eq)
  also have "\<dots> = take_bit 32 n mod 256" by (rule int_and_255)
  also have "\<dots> = n mod 256"
    by (simp add: take_bit_eq_mod mod_mod_cancel)
  finally have u: "uint ?w = n mod 256" .
  have "n mod 256 < 256" by simp
  then have "uint ?w < 2 ^ 31" using u by simp
  then have "sint ?w = uint ?w" by (rule sint_small)
  then show ?thesis using u by (simp add: js_bitand_def toInt32_def)
qed

lemma js_bit_small:
  fixes a b :: int
  assumes "0 \<le> a" "a < 2 ^ 31" "0 \<le> b" "b < 2 ^ 31"
  shows "js_bitand (Some a) (Some b) = a AND b"
    and "js_bitor (Some a) (Some b) = a OR b"
    and "js_bitxor (Some a) (Some b) = a XOR b"
proof -
  have ua: "uint (word_of_int a :: 32 word) = a" using assms(1,2) by (rule uint_word_of_int_small)
  have ub: "uint (word_of_int b :: 32 word) = b" using assms(3,4) by (rule uint_word_of_int_small)
  have "a AND b \<le> a" using assms(1) by (rule AND_upper1)
  then have "a AND b < 2 ^ 31" using assms(2) by simp
  then have "uint ((word_of_int a :: 32 word) AND word_of_int b) < 2 ^ 31"
    by (simp add: uint_and ua ub)
  then show "js_bitand (Some a) (Some b) = a AND b"
    by (simp add: js_bitand_def toInt32_def sint_small uint_and ua ub)
  have "a OR b < 2 ^ 31" using assms(1,2,4) by (rule OR_upper)
  then have "uint ((word_of_int a :: 32 word) OR word_of_int b) < 2 ^ 31"
    by (simp add: uint_or ua ub)
  then show "js_bitor (Some a) (Some b) = a OR b"
    by (simp add: js_bitor_def toInt32_def sint_small uint_or ua ub)
  have "a XOR b < 2 ^ 31" using assms(1,2,4) by (rule XOR_upper)
  then have "uint ((word_of_int a :: 32 word) XOR word_of_int b) < 2 ^ 31"
    by (simp add: uint_xor ua ub)
  then show "js_bitxor (Some a) (Some b) = a XOR b"
    by (simp add: js_bitxor_def toInt32_def sint_small uint_xor ua ub)
qed

lemma next_n:
  fixes n :: int
  assumes "0 \<le> n"
  shows "(if n \<le> n mod 256 then 0 else (n - n mod 256) div 256) = n div 256"
proof (cases "n \<le> n mod 256")
  case True
  have "n mod 256 < 256" by simp
  then have "n < 256" using True by linarith
  then show ?thesis using True assms by simp
next
  case False
  have "(n - n mod 256) div 256 = n div 256"
    by (simp add: minus_mod_eq_mult_div)
  then show ?thesis using False by simp
qed

lemma digits6:
  fixes n :: int
  assumes "0 \<le> n" "n < 2 ^ 48"
  shows "n div 256 div 256 div 256 div 256 div 256 mod 256 * 2 ^ 40
       + n div 256 div 256 div 256 div 256 mod 256 * 2 ^ 32
       + n div 256 div 256 div 256 mod 256 * 2 ^ 24
       + n div 256 div 256 mod 256 * 2 ^ 16
       + n div 256 mod 256 * 2 ^ 8
       + n mod 256 = n"
proof -
  define n1 where "n1 = n div 256"
  define n2 where "n2 = n1 div 256"
  define n3 where "n3 = n2 div 256"
  define n4 where "n4 = n3 div 256"
  define n5 where "n5 = n4 div 256"
  have e0: "n = n1 * 256 + n mod 256" by (simp add: n1_def)
  have e1: "n1 = n2 * 256 + n1 mod 256" by (simp add: n2_def)
  have e2: "n2 = n3 * 256 + n2 mod 256" by (simp add: n3_def)
  have e3: "n3 = n4 * 256 + n3 mod 256" by (simp add: n4_def)
  have e4: "n4 = n5 * 256 + n4 mod 256" by (simp add: n5_def)
  have b1: "n1 < 2 ^ 40" using assms(2) unfolding n1_def by (simp add: div_less_iff_less_mult)
  have b2: "n2 < 2 ^ 32" using b1 unfolding n2_def by (simp add: div_less_iff_less_mult)
  have b3: "n3 < 2 ^ 24" using b2 unfolding n3_def by (simp add: div_less_iff_less_mult)
  have b4: "n4 < 2 ^ 16" using b3 unfolding n4_def by (simp add: div_less_iff_less_mult)
  have b5: "n5 < 2 ^ 8" using b4 unfolding n5_def by (simp add: div_less_iff_less_mult)
  have "0 \<le> n5" using assms(1) unfolding n5_def n4_def n3_def n2_def n1_def
    by (simp add: pos_imp_zdiv_nonneg_iff)
  then have e5: "n5 mod 256 = n5" using b5 by simp
  define r0 where "r0 = n mod 256"
  define r1 where "r1 = n1 mod 256"
  define r2 where "r2 = n2 mod 256"
  define r3 where "r3 = n3 mod 256"
  define r4 where "r4 = n4 mod 256"
  have "n5 * 1099511627776 + r4 * 4294967296 + r3 * 16777216 + r2 * 65536 + r1 * 256 + r0 = n"
    using e0 e1 e2 e3 e4 unfolding r0_def [symmetric] r1_def [symmetric] r2_def [symmetric]
      r3_def [symmetric] r4_def [symmetric]
    by linarith
  then have "n5 mod 256 * 2 ^ 40 + n4 mod 256 * 2 ^ 32 + n3 mod 256 * 2 ^ 24
        + n2 mod 256 * 2 ^ 16 + n1 mod 256 * 2 ^ 8 + n mod 256 = n"
    unfolding e5 r0_def r1_def r2_def r3_def r4_def by simp
  then show ?thesis unfolding n1_def n2_def n3_def n4_def n5_def .
qed

lemma js_get_set: "js_get (js_set xs i v) j = (if j = i then Some v else js_get xs j)"
  by (auto simp add: js_get_def js_set_def nth_append)

lemma write_loop_step:
  assumes "i < 6" "0 \<le> n" "j = i + 1" "p = index + 5 - i"
  shows "writeSignedOffset_loop i bytes index n =
         writeSignedOffset_loop j (js_set bytes p (n mod 256)) index (n div 256)"
  using assms
  by (subst writeSignedOffset_loop.simps) (simp add: js_bitand_255 next_n)

lemma write_loop_end: "writeSignedOffset_loop 6 bytes index n = bytes"
  by (subst writeSignedOffset_loop.simps) simp

lemma write_loop_unrolled:
  fixes n :: int
  assumes "0 \<le> n"
  shows "writeSignedOffset_loop 0 bytes index n =
    js_set (js_set (js_set (js_set (js_set (js_set bytes (index + 5) (n mod 256))
      (index + 4) (n div 256 mod 256))
      (index + 3) (n div 256 div 256 mod 256))
      (index + 2) (n div 256 div 256 div 256 mod 256))
      (index + 1) (n div 256 div 256 div 256 div 256 mod 256))
      index (n div 256 div 256 div 256 div 256 div 256 mod 256)"
proof -
  define n1 where "n1 = n div 256"
  define n2 where "n2 = n1 div 256"
  define n3 where "n3 = n2 div 256"
  define n4 where "n4 = n3 div 256"
  define n5 where "n5 = n4 div 256"
  define n6 where "n6 = n5 div 256"
  have p1: "0 \<le> n1" using assms by (simp add: n1_def)
  have p2: "0 \<le> n2" using p1 by (simp add: n2_def)
  have p3: "0 \<le> n3" using p2 by (simp add: n3_def)
  have p4: "0 \<le> n4" using p3 by (simp add: n4_def)
  have p5: "0 \<le> n5" using p4 by (simp add: n5_def)
  define b0 where "b0 = js_set bytes (index + 5) (n mod 256)"
  define b1 where "b1 = js_set b0 (index + 4) (n1 mod 256)"
  define b2 where "b2 = js_set b1 (index + 3) (n2 mod 256)"
  define b3 where "b3 = js_set b2 (index + 2) (n3 mod 256)"
  define b4 where "b4 = js_set b3 (index + 1) (n4 mod 256)"
  define b5 where "b5 = js_set b4 index (n5 mod 256)"
  have "writeSignedOffset_loop 0 bytes index n = writeSignedOffset_loop 1 b0 index n1"
    unfolding b0_def n1_def by (rule write_loop_step) (use assms in simp_all)
  also have "\<dots> = writeSignedOffset_loop 2 b1 index n2"
    unfolding b1_def n2_def by (rule write_loop_step) (use p1 in simp_all)
  also have "\<dots> = writeSignedOffset_loop 3 b2 index n3"
    unfolding b2_def n3_def by (rule write_loop_step) (use p2 in simp_all)
  also have "\<dots> = writeSignedOffset_loop 4 b3 index n4"
    unfolding b3_def n4_def by (rule write_loop_step) (use p3 in simp_all)
  also have "\<dots> = writeSignedOffset_loop 5 b4 index n5"
    unfolding b4_def n5_def by (rule write_loop_step) (use p4 in simp_all)
  also have "\<dots> = writeSignedOffset_loop 6 b5 index n6"
    unfolding b5_def n6_def by (rule write_loop_step) (use p5 in simp_all)
  also have "\<dots> = b5" by (rule write_loop_end)
  finally show ?thesis
    unfolding b5_def b4_def b3_def b2_def b1_def b0_def n5_def n4_def n3_def n2_def n1_def .
qed

lemma read_loop_step:
  assumes "i < 6" "j = i + 1" "js_get bytes (index + i) = Some v"
    "v' = (if i = 0 \<and> isNeg then js_bitxor (Some v) (Some 128) else v)"
    "e = (5 - i) * 8"
  shows "readSignedOffset_loop i bytes index isNeg (Some off) =
         readSignedOffset_loop j bytes index isNeg (Some (off + v' * 2 ^ e))"
  using assms
  by (subst readSignedOffset_loop.simps) (simp add: Let_def)

lemma read_loop_end: "readSignedOffset_loop 6 bytes index isNeg offset = offset"
  by (subst readSignedOffset_loop.simps) simp

lemma read_loop_unrolled:
  assumes "js_get bytes index = Some v0"
    "js_get bytes (index + 1) = Some v1"
    "js_get bytes (index + 2) = Some v2"
    "js_get bytes (index + 3) = Some v3"
    "js_get bytes (index + 4) = Some v4"
    "js_get bytes (index + 5) = Some v5"
    "v0' = (if isNeg then js_bitxor (Some v0) (Some 128) else v0)"
  shows "readSignedOffset_loop 0 bytes index isNeg (Some 0) =
         Some (v0' * 2 ^ 40 + v1 * 2 ^ 32 + v2 * 2 ^ 24 + v3 * 2 ^ 16 + v4 * 2 ^ 8 + v5)"
proof -
  have "readSignedOffset_loop 0 bytes index isNeg (Some 0) =
        readSignedOffset_loop 1 bytes index isNeg (Some (0 + v0' * 2 ^ 40))"
    by (rule read_loop_step [where v = v0]) (use assms in simp_all)
  also have "\<dots> = readSignedOffset_loop 2 bytes index isNeg (Some (0 + v0' * 2 ^ 40 + v1 * 2 ^ 32))"
    by (rule read_loop_step [where v = v1]) (use assms in simp_all)
  also have "\<dots> = readSignedOffset_loop 3 bytes index isNeg
        (Some (0 + v0' * 2 ^ 40 + v1 * 2 ^ 32 + v2 * 2 ^ 24))"
    by (rule read_loop_step [where v = v2]) (use assms in simp_all)
  also have "\<dots> = readSignedOffset_loop 4 bytes index isNeg
        (Some (0 + v0' * 2 ^ 40 + v1 * 2 ^ 32 + v2 * 2 ^ 24 + v3 * 2 ^ 16))"
    by (rule read_loop_step [where v = v3]) (use assms in simp_all)
  also have "\<dots> = readSignedOffset_loop 5 bytes index isNeg
        (Some (0 + v0' * 2 ^ 40 + v1 * 2 ^ 32 + v2 * 2 ^ 24 + v3 * 2 ^ 16 + v4 * 2 ^ 8))"
    by (rule read_loop_step [where v = v4]) (use assms in simp_all)
  also have "\<dots> = readSignedOffset_loop 6 bytes index isNeg
        (Some (0 + v0' * 2 ^ 40 + v1 * 2 ^ 32 + v2 * 2 ^ 24 + v3 * 2 ^ 16 + v4 * 2 ^ 8 + v5 * 2 ^ 0))"
    by (rule read_loop_step [where v = v5]) (use assms in simp_all)
  also have "\<dots> = Some (0 + v0' * 2 ^ 40 + v1 * 2 ^ 32 + v2 * 2 ^ 24 + v3 * 2 ^ 16 + v4 * 2 ^ 8 + v5 * 2 ^ 0)"
    by (rule read_loop_end)
  finally show ?thesis by simp
qed

lemma top_digit_bounds:
  fixes n :: int
  assumes "0 \<le> n" "n \<le> 2 ^ 47 - 1"
  shows "0 \<le> n div 256 div 256 div 256 div 256 div 256 mod 256"
    and "n div 256 div 256 div 256 div 256 div 256 mod 256 < 128"
proof -
  define x where "x = n div 256 div 256 div 256 div 256 div 256"
  have hi: "x < 128"
    unfolding x_def using assms(2) by (simp add: div_less_iff_less_mult)
  have lo: "0 \<le> x"
    unfolding x_def using assms(1) by (simp add: pos_imp_zdiv_nonneg_iff)
  have "x mod 256 = x" using lo hi by (intro mod_pos_pos_trivial) simp_all
  then have "0 \<le> x mod 256" and "x mod 256 < 128" using lo hi by simp_all
  then show "0 \<le> n div 256 div 256 div 256 div 256 div 256 mod 256"
    and "n div 256 div 256 div 256 div 256 div 256 mod 256 < 128"
    unfolding x_def .
qed

lemma roundtrip_core:
  fixes n :: int and bytes :: jsarray and index :: nat
  assumes "0 \<le> n" "n \<le> 2 ^ 47 - 1"
  defines "W \<equiv> writeSignedOffset_loop 0 bytes index n"
  shows "readSignedOffset W index True = Some n"
    and "readSignedOffset (js_set W index (js_bitor (js_get W index) (Some 128))) index True
           = Some (- n)"
proof -
  define d0 where "d0 = n mod 256"
  define d1 where "d1 = n div 256 mod 256"
  define d2 where "d2 = n div 256 div 256 mod 256"
  define d3 where "d3 = n div 256 div 256 div 256 mod 256"
  define d4 where "d4 = n div 256 div 256 div 256 div 256 mod 256"
  define d5 where "d5 = n div 256 div 256 div 256 div 256 div 256 mod 256"
  have W: "W = js_set (js_set (js_set (js_set (js_set (js_set bytes (index + 5) d0)
      (index + 4) d1) (index + 3) d2) (index + 2) d3) (index + 1) d4) index d5"
    unfolding W_def d0_def d1_def d2_def d3_def d4_def d5_def
    using assms(1) by (rule write_loop_unrolled)
  have g0: "js_get W index = Some d5" by (simp add: W js_get_set)
  have g1: "js_get W (index + 1) = Some d4" by (simp add: W js_get_set)
  have g2: "js_get W (index + 2) = Some d3" by (simp add: W js_get_set)
  have g3: "js_get W (index + 3) = Some d2" by (simp add: W js_get_set)
  have g4: "js_get W (index + 4) = Some d1" by (simp add: W js_get_set)
  have g5: "js_get W (index + 5) = Some d0" by (simp add: W js_get_set)
  have d5_lo: "0 \<le> d5"
    unfolding d5_def using assms(1,2) by (rule top_digit_bounds(1))
  have d5_hi: "d5 < 128"
    unfolding d5_def using assms(1,2) by (rule top_digit_bounds(2))
  have sum: "d5 * 2 ^ 40 + d4 * 2 ^ 32 + d3 * 2 ^ 24 + d2 * 2 ^ 16 + d1 * 2 ^ 8 + d0 = n"
    unfolding d0_def d1_def d2_def d3_def d4_def d5_def
    by (rule digits6) (use assms in simp_all)
  have and0: "js_bitand (Some d5) (Some 128) = 0"
    using js_bit_small(1) [of d5 128] d5_lo d5_hi int_and_128_small [of d5] by simp
  have "readSignedOffset_loop 0 W index False (Some 0) =
        Some (d5 * 2 ^ 40 + d4 * 2 ^ 32 + d3 * 2 ^ 24 + d2 * 2 ^ 16 + d1 * 2 ^ 8 + d0)"
    by (rule read_loop_unrolled [OF g0 g1 g2 g3 g4 g5]) simp
  then show "readSignedOffset W index True = Some n"
    using sum by (simp add: readSignedOffset_def g0 and0)
  define W' where "W' = js_set W index (js_bitor (js_get W index) (Some 128))"
  have or128: "js_bitor (Some d5) (Some 128) = d5 + 128"
    using js_bit_small(2) [of d5 128] d5_lo d5_hi int_or_128 [of d5] by simp
  have h0: "js_get W' index = Some (d5 + 128)" by (simp add: W'_def js_get_set g0 or128)
  have h1: "js_get W' (index + 1) = Some d4" using g1 by (simp add: W'_def js_get_set)
  have h2: "js_get W' (index + 2) = Some d3" using g2 by (simp add: W'_def js_get_set)
  have h3: "js_get W' (index + 3) = Some d2" using g3 by (simp add: W'_def js_get_set)
  have h4: "js_get W' (index + 4) = Some d1" using g4 by (simp add: W'_def js_get_set)
  have h5: "js_get W' (index + 5) = Some d0" using g5 by (simp add: W'_def js_get_set)
  have and1: "js_bitand (Some (d5 + 128)) (Some 128) = 128"
    using js_bit_small(1) [of "d5 + 128" 128] d5_lo d5_hi int_and_128_big [of d5] by simp
  have xor1: "js_bitxor (Some (d5 + 128)) (Some 128) = d5"
    using js_bit_small(3) [of "d5 + 128" 128] d5_lo d5_hi int_xor_128 [of d5] by simp
  have "readSignedOffset_loop 0 W' index True (Some 0) =
        Some (d5 * 2 ^ 40 + d4 * 2 ^ 32 + d3 * 2 ^ 24 + d2 * 2 ^ 16 + d1 * 2 ^ 8 + d0)"
    by (rule read_loop_unrolled [OF h0 h1 h2 h3 h4 h5]) (simp add: xor1)
  then have "readSignedOffset W' index True = Some (- n)"
    using sum by (simp add: readSignedOffset_def h0 and1)
  then show "readSignedOffset (js_set W index (js_bitor (js_get W index) (Some 128))) index True
           = Some (- n)"
    by (simp add: W'_def)
qed

text \<open>
  C4. For every integer offset of absolute value at most \<open>2^47 - 1\<close>, writing it with
  \<open>_writeSignedOffset\<close> in large (6-byte) mode and reading the written bytes back with
  \<open>_readSignedOffset\<close> in large mode returns the offset; for every offset of larger
  absolute value the write throws and writes nothing.
\<close>

theorem signed_offset_roundtrip:
  "(\<bar>offset\<bar> \<le> 2 ^ 47 - 1 \<longrightarrow>
      (\<exists>written. writeSignedOffset bytes index offset True = Inr written
         \<and> readSignedOffset written index True = Some offset))
   \<and> (\<bar>offset\<bar> > 2 ^ 47 - 1 \<longrightarrow>
      writeSignedOffset bytes index offset True = Inl OffsetTooBig)"
proof (intro conjI impI)
  assume big: "\<bar>offset\<bar> > 2 ^ 47 - 1"
  then show "writeSignedOffset bytes index offset True = Inl OffsetTooBig"
    by (auto simp add: writeSignedOffset_def maxSignedOffset_def Let_def)
next
  assume small: "\<bar>offset\<bar> \<le> 2 ^ 47 - 1"
  show "\<exists>written. writeSignedOffset bytes index offset True = Inr written
         \<and> readSignedOffset written index True = Some offset"
  proof (cases "offset < 0")
    case True
    then have n: "0 \<le> - offset" "- offset \<le> 2 ^ 47 - 1" using small by simp_all
    have "readSignedOffset (js_set (writeSignedOffset_loop 0 bytes index (- offset)) index
            (js_bitor (js_get (writeSignedOffset_loop 0 bytes index (- offset)) index) (Some 128)))
            index True = Some (- (- offset))"
      using n by (rule roundtrip_core(2))
    then show ?thesis
      using True n by (simp add: writeSignedOffset_def maxSignedOffset_def Let_def)
  next
    case False
    then have n: "0 \<le> offset" "offset \<le> 2 ^ 47 - 1" using small by simp_all
    have "readSignedOffset (writeSignedOffset_loop 0 bytes index offset) index True = Some offset"
      using n by (rule roundtrip_core(1))
    then show ?thesis
      using False n by (simp add: writeSignedOffset_def maxSignedOffset_def Let_def)
  qed
qed

theorem signed_offset_roundtrip_witness:
  "(\<exists>written. writeSignedOffset [] 0 2315765760 True = Inr written
       \<and> readSignedOffset written 0 True = Some 2315765760)
   \<and> writeSignedOffset [] 0 (2 ^ 47) True = Inl OffsetTooBig"
proof -
  have small: "\<bar>2315765760 :: int\<bar> \<le> 2 ^ 47 - 1" by simp
  have big: "\<bar>2 ^ 47 :: int\<bar> > 2 ^ 47 - 1" by simp
  from signed_offset_roundtrip [of 2315765760 "[]" 0] small
  have a: "\<exists>written. writeSignedOffset [] 0 2315765760 True = Inr written
       \<and> readSignedOffset written 0 True = Some 2315765760" by blast
  from signed_offset_roundtrip [of "2 ^ 47" "[]" 0] big
  have b: "writeSignedOffset [] 0 (2 ^ 47) True = Inl OffsetTooBig" by blast
  from a b show ?thesis by (rule conjI)
qed

section \<open>The in-memory tree: \<open>search\<close> with \<open>in\<close>, \<open>lastLeaf\<close>, \<open>reverseAll\<close>\<close>

lemma find_isEqual_Array: "find (\<lambda>entry. isEqual (fst entry) (Array xs)) es = None"
proof (induction es)
  case Nil
  show ?case by simp
next
  case (Cons a es)
  have "\<not> isEqual (fst a) (Array xs)"
    by (cases "fst a") (simp_all add: isEqual_def str_def)
  then show ?case using Cons by simp
qed

lemma findLeaf_node_is_Leaf:
  "\<exists>es p n. findLeaf_node key nd = Leaf es p n"
  "\<exists>es p n. findLeaf_entries key ents gt = Leaf es p n"
  by (induction key nd and key ents gt rule: findLeaf_node_findLeaf_entries.induct) auto

lemma search_in_loop_keeps_results:
  assumes "trySameLeaf \<longrightarrow> (\<exists>es p n. leaf = Some (Leaf es p n))" "val = Array xs"
  shows "search_in_loop t val sortedKeys searchKey leaf trySameLeaf results = Inr results"
  using assms
proof (induction t val sortedKeys searchKey leaf trySameLeaf results rule: search_in_loop.induct)
  case (1 t val sortedKeys searchKey leaf trySameLeaf results)
  show ?case
  proof (cases "truthy searchKey")
    case False
    then show ?thesis by (subst search_in_loop.simps) simp
  next
    case T: True
    show ?thesis
    proof (cases trySameLeaf)
      case True
      with 1(4) obtain es p n where leaf: "leaf = Some (Leaf es p n)" by auto
      have sel: "(if \<not> trySameLeaf then Some (findLeaf t searchKey) else leaf) = Some (Leaf es p n)"
        using True leaf by simp
      have F: "find (\<lambda>entry. isEqual (fst entry) val) es = None"
        using 1(5) find_isEqual_Array by simp
      have "search_in_loop t val sortedKeys searchKey (Some (Leaf es p n)) False results = Inr results"
        by (rule 1(1) [OF _ sel refl F True]) (use T 1(5) in simp_all)
      then show ?thesis using T True leaf F by (subst search_in_loop.simps) simp
    next
      case False
      obtain es p n where fl: "findLeaf t searchKey = Leaf es p n"
        using findLeaf_node_is_Leaf(1) unfolding findLeaf_def by blast
      have sel: "(if \<not> trySameLeaf then Some (findLeaf t searchKey) else leaf) = Some (Leaf es p n)"
        using False fl by simp
      have F: "find (\<lambda>entry. isEqual (fst entry) val) es = None"
        using 1(5) find_isEqual_Array by simp
      have "search_in_loop t val (snd (shift sortedKeys)) (fst (shift sortedKeys))
              (Some (Leaf es p n)) True results = Inr results"
        by (rule 1(2) [OF _ sel refl F False]) (use T 1(5) in simp_all)
      then show ?thesis using T False fl F by (subst search_in_loop.simps) simp
    qed
  qed
qed

lemma search_in_always_empty: "search_in defaultSort t needles = Inr []"
  unfolding search_in_def Let_def by (rule search_in_loop_keeps_results) simp_all

text \<open>
  C9 (the code does not do what the claim says). The \<open>in\<close> branch of the in-memory
  \<open>search\<close> compares every entry key with the whole array of needles instead of the
  current needle, so no entry ever matches and the result is empty for every tree and
  every list of needles (\<open>search_in_always_empty\<close>). Here the tree holds the key 5,
  \<open>findLeaf\<close> reaches the leaf that holds it, and \<open>search("in", [5])\<close> still returns
  no entry.
\<close>

theorem search_in_misses_present_key:
  "find (\<lambda>entry. isEqual (fst entry) (Number (Fin 5)))
       (entries (findLeaf exampleTree (Number (Fin 5))))
     = Some (Number (Fin 5), [\<lparr>recordPointer = [1], metadata = []\<rparr>])
   \<and> search_in (\<lambda>xs. xs) exampleTree [Number (Fin 5)] = Inr []"
  by (simp add: search_in_always_empty exampleTree_def findLeaf_def isEqual_def str_def)

text \<open>
  C10. For every in-memory tree, \<open>lastLeaf()\<close> returns \<open>undefined\<close>: its loop goes
  down the \<open>gtChild\<close> links and the node it reaches is never returned. Hence
  \<open>reverseAll()\<close> returns an empty array whatever the tree holds.
\<close>

theorem lastLeaf_undefined_reverseAll_empty:
  "lastLeaf t = None \<and> reverseAll t = Some []"
  by (simp add: lastLeaf_def reverseAll_def reverseAll_loop.simps)

section \<open>The text codec: what \<open>TextDecoder\<close> reads back\<close>

lemma step_ascii:
  "bite \<le> 0x7F \<Longrightarrow>
   utf8Decode cp seen 0 lower upper (bite # stream) = bite # utf8Decode cp seen 0 lower upper stream"
  by (subst utf8Decode.simps) simp

lemma step_lead2:
  "0xC2 \<le> bite \<Longrightarrow> bite \<le> 0xDF \<Longrightarrow>
   utf8Decode cp seen 0 lower upper (bite # stream) = utf8Decode (bite mod 32) seen 1 lower upper stream"
  by (subst utf8Decode.simps) simp

lemma step_lead3:
  "0xE0 \<le> bite \<Longrightarrow> bite \<le> 0xEF \<Longrightarrow>
   utf8Decode cp seen 0 lower upper (bite # stream)
     = utf8Decode (bite mod 16) seen 2
         (if bite = 0xE0 then 0xA0 else lower) (if bite = 0xED then 0x9F else upper) stream"
  by (subst utf8Decode.simps) simp

lemma step_lead4:
  "0xF0 \<le> bite \<Longrightarrow> bite \<le> 0xF4 \<Longrightarrow>
   utf8Decode cp seen 0 lower upper (bite # stream)
     = utf8Decode (bite mod 8) seen 3
         (if bite = 0xF0 then 0x90 else lower) (if bite = 0xF4 then 0x8F else upper) stream"
  by (subst utf8Decode.simps) simp

lemma step_cont:
  "needed \<noteq> 0 \<Longrightarrow> lower \<le> bite \<Longrightarrow> bite \<le> upper \<Longrightarrow> seen' = seen + 1 \<Longrightarrow> seen' \<noteq> needed \<Longrightarrow>
   cp' = cp * 64 + bite mod 64 \<Longrightarrow>
   utf8Decode cp seen needed lower upper (bite # stream)
     = utf8Decode cp' seen' needed 0x80 0xBF stream"
  by (subst utf8Decode.simps) simp

lemma step_last:
  "needed \<noteq> 0 \<Longrightarrow> lower \<le> bite \<Longrightarrow> bite \<le> upper \<Longrightarrow> seen + 1 = needed \<Longrightarrow>
   cp' = cp * 64 + bite mod 64 \<Longrightarrow>
   utf8Decode cp seen needed lower upper (bite # stream)
     = cp' # utf8Decode 0 0 0 0x80 0xBF stream"
  by (subst utf8Decode.simps) simp

lemma step_lead:
  "0xC2 \<le> bite \<Longrightarrow> bite \<le> 0xDF \<Longrightarrow> cp' = bite mod 32 \<Longrightarrow>
   utf8Decode cp seen 0 lower upper (bite # stream) = utf8Decode cp' seen 1 lower upper stream"
  "0xE0 \<le> bite \<Longrightarrow> bite \<le> 0xEF \<Longrightarrow> cp' = bite mod 16 \<Longrightarrow>
   lower' = (if bite = 0xE0 then 0xA0 else lower) \<Longrightarrow>
   upper' = (if bite = 0xED then 0x9F else upper) \<Longrightarrow>
   utf8Decode cp seen 0 lower upper (bite # stream) = utf8Decode cp' seen 2 lower' upper' stream"
  "0xF0 \<le> bite \<Longrightarrow> bite \<le> 0xF4 \<Longrightarrow> cp' = bite mod 8 \<Longrightarrow>
   lower' = (if bite = 0xF0 then 0x90 else lower) \<Longrightarrow>
   upper' = (if bite = 0xF4 then 0x8F else upper) \<Longrightarrow>
   utf8Decode cp seen 0 lower upper (bite # stream) = utf8Decode cp' seen 3 lower' upper' stream"
  by (simp_all add: step_lead2 step_lead3 step_lead4)

lemma mod_shift:
  fixes a :: nat
  shows "a < n \<Longrightarrow> (a + k * n) mod n = a"
  by simp

lemma low_bits:
  fixes b :: nat
  assumes "b < 64"
  shows "(0x80 + b) mod 64 = b"
proof -
  have "(b + 2 * 64) mod 64 = b" using assms by (rule mod_shift)
  then show ?thesis by (simp add: add.commute)
qed

lemma decode_two:
  assumes "0x7F < cp" "cp \<le> 0x7FF"
  shows "utf8Decode 0 0 0 0x80 0xBF ((cp div 64 + 0xC0) # (0x80 + cp mod 64) # rest)
           = cp # utf8Decode 0 0 0 0x80 0xBF rest"
proof -
  define a where "a = cp div 64"
  define b where "b = cp mod 64"
  have cp: "cp = a * 64 + b" unfolding a_def b_def by simp
  have a: "2 \<le> a" "a < 32" using assms unfolding a_def by simp_all
  have b: "b < 64" unfolding b_def by simp
  have "(a + 6 * 32) mod 32 = a" using a(2) by (rule mod_shift)
  then have m1: "(a + 0xC0) mod 32 = a" by simp
  have m2: "(0x80 + b) mod 64 = b" using b by (rule low_bits)
  have "utf8Decode 0 0 0 0x80 0xBF ((a + 0xC0) # (0x80 + b) # rest)
          = utf8Decode a 0 1 0x80 0xBF ((0x80 + b) # rest)"
    by (rule step_lead(1)) (use a m1 in simp_all)
  also have "\<dots> = cp # utf8Decode 0 0 0 0x80 0xBF rest"
    by (rule step_last) (use b m2 cp in simp_all)
  finally show ?thesis unfolding a_def b_def .
qed

lemma decode_three:
  assumes "0x7FF < cp" "cp \<le> 0xFFFF" "cp < 0xD800 \<or> 0xDFFF < cp"
  shows "utf8Decode 0 0 0 0x80 0xBF
           ((cp div 4096 + 0xE0) # (0x80 + cp div 64 mod 64) # (0x80 + cp mod 64) # rest)
           = cp # utf8Decode 0 0 0 0x80 0xBF rest"
proof -
  define q where "q = cp div 64"
  define a where "a = q div 64"
  define b where "b = q mod 64"
  define c where "c = cp mod 64"
  have "cp div 4096 = cp div (64 * 64)" by simp
  also have "\<dots> = cp div 64 div 64" by (rule div_mult2_eq)
  finally have top: "cp div 4096 = a" unfolding a_def q_def .
  have cp: "cp = q * 64 + c" unfolding q_def c_def by simp
  have q: "q = a * 64 + b" unfolding a_def b_def by simp
  have qb: "32 \<le> q" "q < 1024" using assms(1,2) unfolding q_def by simp_all
  have a: "a < 16" using qb(2) unfolding a_def by simp
  have b: "b < 64" unfolding b_def by simp
  have c: "c < 64" unfolding c_def by simp
  have lo: "a = 0 \<Longrightarrow> 32 \<le> b" using qb(1) q by simp
  have hi: "b < 32" if "a = 13"
  proof -
    have "q = 832 + b" using q that by simp
    moreover from this have "cp < 0xD800" using assms(3) cp b c by linarith
    then have "q < 864" unfolding q_def by simp
    ultimately show ?thesis by linarith
  qed
  have "(a + 14 * 16) mod 16 = a" using a by (rule mod_shift)
  then have m1: "(a + 0xE0) mod 16 = a" by simp
  have m2: "(0x80 + b) mod 64 = b" using b by (rule low_bits)
  have m3: "(0x80 + c) mod 64 = c" using c by (rule low_bits)
  define lower where "lower = (if a + 0xE0 = 0xE0 then 0xA0 else (0x80::nat))"
  define upper where "upper = (if a + 0xE0 = 0xED then 0x9F else (0xBF::nat))"
  have bounds: "lower \<le> 0x80 + b" "0x80 + b \<le> upper"
    using lo hi b unfolding lower_def upper_def by auto
  have "utf8Decode 0 0 0 0x80 0xBF ((a + 0xE0) # (0x80 + b) # (0x80 + c) # rest)
          = utf8Decode a 0 2 lower upper ((0x80 + b) # (0x80 + c) # rest)"
    by (rule step_lead(2)) (use a m1 in \<open>simp_all add: lower_def upper_def\<close>)
  also have "\<dots> = utf8Decode q 1 2 0x80 0xBF ((0x80 + c) # rest)"
    by (rule step_cont) (use bounds m2 q in simp_all)
  also have "\<dots> = cp # utf8Decode 0 0 0 0x80 0xBF rest"
    by (rule step_last) (use c m3 cp in simp_all)
  finally show ?thesis unfolding top b_def c_def q_def .
qed

lemma decode_four:
  assumes "0xFFFF < cp" "cp \<le> 0x10FFFF"
  shows "utf8Decode 0 0 0 0x80 0xBF
           ((cp div 262144 + 0xF0) # (0x80 + cp div 4096 mod 64) # (0x80 + cp div 64 mod 64)
              # (0x80 + cp mod 64) # rest)
           = cp # utf8Decode 0 0 0 0x80 0xBF rest"
proof -
  define q where "q = cp div 64"
  define p where "p = q div 64"
  define a where "a = p div 64"
  define b where "b = p mod 64"
  define c where "c = q mod 64"
  define d where "d = cp mod 64"
  have "cp div 4096 = cp div (64 * 64)" by simp
  also have "\<dots> = cp div 64 div 64" by (rule div_mult2_eq)
  finally have mid: "cp div 4096 = p" unfolding p_def q_def .
  have "cp div 262144 = cp div (4096 * 64)" by simp
  also have "\<dots> = cp div 4096 div 64" by (rule div_mult2_eq)
  finally have top: "cp div 262144 = a" unfolding a_def mid .
  have cp: "cp = q * 64 + d" unfolding q_def d_def by simp
  have q: "q = p * 64 + c" unfolding p_def c_def by simp
  have p: "p = a * 64 + b" unfolding a_def b_def by simp
  have pb: "16 \<le> p" "p < 272" using assms unfolding mid [symmetric] by simp_all
  have a: "a \<le> 4" using pb(2) unfolding a_def by simp
  have b: "b < 64" unfolding b_def by simp
  have c: "c < 64" unfolding c_def by simp
  have d: "d < 64" unfolding d_def by simp
  have lo: "a = 0 \<Longrightarrow> 16 \<le> b" using pb(1) p by simp
  have hi: "a = 4 \<Longrightarrow> b < 16" using pb(2) p by simp
  have a8: "a < 8" using a by simp
  have "(a + 30 * 8) mod 8 = a" using a8 by (rule mod_shift)
  then have m1: "(a + 0xF0) mod 8 = a" by simp
  have m2: "(0x80 + b) mod 64 = b" using b by (rule low_bits)
  have m3: "(0x80 + c) mod 64 = c" using c by (rule low_bits)
  have m4: "(0x80 + d) mod 64 = d" using d by (rule low_bits)
  define lower where "lower = (if a + 0xF0 = 0xF0 then 0x90 else (0x80::nat))"
  define upper where "upper = (if a + 0xF0 = 0xF4 then 0x8F else (0xBF::nat))"
  have bounds: "lower \<le> 0x80 + b" "0x80 + b \<le> upper"
    using lo hi b unfolding lower_def upper_def by auto
  have "utf8Decode 0 0 0 0x80 0xBF ((a + 0xF0) # (0x80 + b) # (0x80 + c) # (0x80 + d) # rest)
          = utf8Decode a 0 3 lower upper ((0x80 + b) # (0x80 + c) # (0x80 + d) # rest)"
    by (rule step_lead(3)) (use a m1 in \<open>simp_all add: lower_def upper_def\<close>)
  also have "\<dots> = utf8Decode p 1 3 0x80 0xBF ((0x80 + c) # (0x80 + d) # rest)"
    by (rule step_cont) (use bounds m2 p in simp_all)
  also have "\<dots> = utf8Decode q 2 3 0x80 0xBF ((0x80 + d) # rest)"
    by (rule step_cont) (use c m3 q in simp_all)
  also have "\<dots> = cp # utf8Decode 0 0 0 0x80 0xBF rest"
    by (rule step_last) (use d m4 cp in simp_all)
  finally show ?thesis unfolding top mid b_def c_def d_def q_def .
qed

lemma decode_utf8Bytes:
  assumes "scalarValue cp"
  shows "utf8Decode 0 0 0 0x80 0xBF (utf8Bytes cp @ rest) = cp # utf8Decode 0 0 0 0x80 0xBF rest"
proof -
  consider "cp \<le> 0x7F" | "0x7F < cp" "cp \<le> 0x7FF" | "0x7FF < cp" "cp \<le> 0xFFFF"
    | "0xFFFF < cp" by linarith
  then show ?thesis
  proof cases
    case 1
    then show ?thesis using step_ascii [of cp 0 0 "0x80" "0xBF" rest] by (simp add: utf8Bytes_def)
  next
    case 2
    then show ?thesis using decode_two [of cp rest] by (simp add: utf8Bytes_def)
  next
    case 3
    then show ?thesis using decode_three [of cp rest] assms
      by (simp add: utf8Bytes_def scalarValue_def)
  next
    case 4
    then show ?thesis using decode_four [of cp rest] assms
      by (simp add: utf8Bytes_def scalarValue_def)
  qed
qed

lemma decode_encoded:
  assumes "\<forall>cp \<in> set cps. scalarValue cp"
  shows "utf8Decode 0 0 0 0x80 0xBF (concat (map utf8Bytes cps)) = cps"
  using assms
proof (induction cps)
  case Nil
  show ?case by (simp add: utf8Decode.simps)
next
  case (Cons cp cps)
  then show ?case using decode_utf8Bytes [of cp "concat (map utf8Bytes cps)"] by simp
qed

lemma utf8Bytes_byte:
  assumes "scalarValue cp" "b \<in> set (utf8Bytes cp)"
  shows "b < 256"
proof -
  have low: "\<And>x::nat. 0x80 + x mod 64 < 256"
  proof -
    fix x :: nat
    have "x mod 64 < 64" by simp
    then show "0x80 + x mod 64 < 256" by linarith
  qed
  have "cp div 262144 \<le> 4" using assms(1) unfolding scalarValue_def by auto
  then have lead4: "cp div 262144 + 0xF0 < 256" by linarith
  consider "cp \<le> 0x7F" | "0x7F < cp" "cp \<le> 0x7FF" | "0x7FF < cp" "cp \<le> 0xFFFF"
    | "0xFFFF < cp" by linarith
  then show ?thesis
  proof cases
    case 1
    then show ?thesis using assms(2) by (simp add: utf8Bytes_def)
  next
    case 2
    then have "cp div 64 + 0xC0 < 256" by simp
    then show ?thesis using 2 assms(2) low [of cp] by (auto simp add: utf8Bytes_def)
  next
    case 3
    then have "cp div 4096 + 0xE0 < 256" by simp
    then show ?thesis using 3 assms(2) low [of cp] low [of "cp div 64"]
      by (auto simp add: utf8Bytes_def)
  next
    case 4
    then show ?thesis using lead4 assms(2) low [of cp] low [of "cp div 64"] low [of "cp div 4096"]
      by (auto simp add: utf8Bytes_def)
  qed
qed

lemma surrogate_pair:
  fixes c d :: nat
  assumes "0xD800 \<le> c" "c \<le> 0xDBFF" "0xDC00 \<le> d" "d \<le> 0xDFFF"
  defines "cp \<equiv> 0x10000 + (c mod 1024) * 1024 + d mod 1024"
  shows "0xFFFF < cp" "cp \<le> 0x10FFFF"
    "(cp - 0x10000) div 1024 + 0xD800 = c" "(cp - 0x10000) mod 1024 + 0xDC00 = d"
proof -
  define x where "x = c - 0xD800"
  define y where "y = d - 0xDC00"
  have x: "x < 1024" "c = x + 54 * 1024" using assms(1,2) unfolding x_def by simp_all
  have y: "y < 1024" "d = y + 55 * 1024" using assms(3,4) unfolding y_def by simp_all
  have cx: "c mod 1024 = x" unfolding x(2) using x(1) by (rule mod_shift)
  have dy: "d mod 1024 = y" unfolding y(2) using y(1) by (rule mod_shift)
  have cp: "cp = 0x10000 + (x * 1024 + y)" unfolding cp_def cx dy by simp
  show "0xFFFF < cp" unfolding cp by simp
  show "cp \<le> 0x10FFFF" unfolding cp using x(1) y(1) by simp
  have rest: "cp - 0x10000 = x * 1024 + y" unfolding cp by simp
  show "(cp - 0x10000) div 1024 + 0xD800 = c" unfolding rest using x y(1) by simp
  show "(cp - 0x10000) mod 1024 + 0xDC00 = d" unfolding rest using y by simp
qed

lemma stringToCodePoints_scalar:
  "wellFormedString s \<Longrightarrow> \<forall>cp \<in> set (stringToCodePoints s). scalarValue cp"
proof (induction s rule: stringToCodePoints.induct)
  case 1
  show ?case by simp
next
  case (2 c)
  then show ?case by (auto simp add: scalarValue_def)
next
  case (3 c d s)
  show ?case
  proof (cases "c < 0xD800 \<or> 0xDFFF < c")
    case True
    then have "wellFormedString (d # s)" "scalarValue c"
      using "3.prems" by (auto simp add: scalarValue_def split: if_splits)
    then show ?thesis using True "3.IH"(1) by auto
  next
    case False
    then have p: "0xD800 \<le> c" "c \<le> 0xDBFF" "0xDC00 \<le> d" "d \<le> 0xDFFF" "wellFormedString s"
      using "3.prems" by (auto split: if_splits)
    have "scalarValue (0x10000 + (c mod 1024) * 1024 + d mod 1024)"
      using surrogate_pair(1,2) [OF p(1-4)] unfolding scalarValue_def by linarith
    moreover have "stringToCodePoints (c # d # s)
        = (0x10000 + (c mod 1024) * 1024 + d mod 1024) # stringToCodePoints s"
      using p False by simp
    ultimately show ?thesis using "3.IH"(3) p False by simp
  qed
qed

lemma codePointsToString_Cons:
  "codePointsToString (cp # cps)
     = (if cp \<le> 0xFFFF then [cp]
        else [(cp - 0x10000) div 1024 + 0xD800, (cp - 0x10000) mod 1024 + 0xDC00])
       @ codePointsToString cps"
  by (simp add: codePointsToString_def)

lemma codePointsToString_stringToCodePoints:
  "wellFormedString s \<Longrightarrow> codePointsToString (stringToCodePoints s) = s"
proof (induction s rule: stringToCodePoints.induct)
  case 1
  show ?case by (simp add: codePointsToString_def)
next
  case (2 c)
  then show ?case by (auto simp add: codePointsToString_def)
next
  case (3 c d s)
  show ?case
  proof (cases "c < 0xD800 \<or> 0xDFFF < c")
    case True
    then have "wellFormedString (d # s)" "c \<le> 0xFFFF"
      using "3.prems" by (auto split: if_splits)
    then show ?thesis using True "3.IH"(1) by (simp add: codePointsToString_Cons)
  next
    case False
    then have p: "0xD800 \<le> c" "c \<le> 0xDBFF" "0xDC00 \<le> d" "d \<le> 0xDFFF" "wellFormedString s"
      using "3.prems" by (auto split: if_splits)
    define cp where "cp = 0x10000 + (c mod 1024) * 1024 + d mod 1024"
    have st: "stringToCodePoints (c # d # s) = cp # stringToCodePoints s"
      unfolding cp_def using p False by simp
    have big: "\<not> cp \<le> 0xFFFF" using surrogate_pair(1) [OF p(1-4)] unfolding cp_def by simp
    have units: "(cp - 0x10000) div 1024 + 0xD800 = c" "(cp - 0x10000) mod 1024 + 0xDC00 = d"
      unfolding cp_def using surrogate_pair(3,4) [OF p(1-4)] by simp_all
    have IH: "codePointsToString (stringToCodePoints s) = s"
      using "3.IH"(3) p False by simp
    show ?thesis unfolding st codePointsToString_Cons using big units IH by simp
  qed
qed

lemma stringToCodePoints_hd:
  assumes "wellFormedString s" "s \<noteq> []"
  shows "stringToCodePoints s \<noteq> [] \<and> (hd (stringToCodePoints s) = 0xFEFF \<longrightarrow> hd s = 0xFEFF)"
proof (cases s)
  case Nil
  then show ?thesis using assms by simp
next
  case (Cons c s')
  show ?thesis
  proof (cases s')
    case Nil
    then show ?thesis using Cons assms by auto
  next
    case (Cons d s'')
    show ?thesis
    proof (cases "c < 0xD800 \<or> 0xDFFF < c")
      case True
      then show ?thesis using \<open>s = c # s'\<close> Cons by auto
    next
      case False
      then have p: "0xD800 \<le> c" "c \<le> 0xDBFF" "0xDC00 \<le> d" "d \<le> 0xDFFF"
        using assms(1) \<open>s = c # s'\<close> Cons by (auto split: if_splits)
      define cp where "cp = 0x10000 + (c mod 1024) * 1024 + d mod 1024"
      have st: "stringToCodePoints (c # d # s'') = cp # stringToCodePoints s''"
        unfolding cp_def using p False by simp
      have "0xFFFF < cp" using surrogate_pair(1) [OF p] unfolding cp_def by simp
      then have "cp \<noteq> 0xFEFF" by simp
      then show ?thesis using \<open>s = c # s'\<close> Cons st by simp
    qed
  qed
qed

lemma text_roundtrip:
  assumes "wellFormedString s" "s = [] \<or> hd s \<noteq> 0xFEFF"
  shows "textDecoder_decode (textEncoder_encode s) = s"
proof -
  have "\<forall>b \<in> set (textEncoder_encode s). b < 256"
    using stringToCodePoints_scalar [OF assms(1)] utf8Bytes_byte
    by (auto simp add: textEncoder_encode_def)
  then have mask: "map (\<lambda>b. b mod 256) (textEncoder_encode s) = textEncoder_encode s"
    by (simp add: map_idI)
  have dec: "utf8Decode 0 0 0 0x80 0xBF (textEncoder_encode s) = stringToCodePoints s"
    unfolding textEncoder_encode_def
    using stringToCodePoints_scalar [OF assms(1)] by (rule decode_encoded)
  have nobom: "\<not> (stringToCodePoints s \<noteq> [] \<and> hd (stringToCodePoints s) = 0xFEFF)"
  proof (cases "s = []")
    case True
    then show ?thesis by simp
  next
    case False
    then show ?thesis using stringToCodePoints_hd [OF assms(1) False] assms(2) by auto
  qed
  have "(if stringToCodePoints s \<noteq> [] \<and> hd (stringToCodePoints s) = 0xFEFF
         then tl (stringToCodePoints s) else stringToCodePoints s) = stringToCodePoints s"
    using nobom by (simp only: if_False)
  then show ?thesis
    unfolding textDecoder_decode_def mask dec serializeStream_def
    using codePointsToString_stringToCodePoints [OF assms(1)] by simp
qed

section \<open>The key codec: round trip\<close>

lemma popTrailingZeros_decomp:
  "\<exists>k. keyBytes = popTrailingZeros keyBytes @ replicate k 0"
proof (induction keyBytes rule: popTrailingZeros.induct)
  case (1 keyBytes)
  show ?case
  proof (cases "keyBytes \<noteq> [] \<and> last keyBytes = 0")
    case True
    then obtain k where k: "butlast keyBytes = popTrailingZeros (butlast keyBytes) @ replicate k 0"
      using 1 by blast
    have "keyBytes = butlast keyBytes @ [0]"
      using True by (metis append_butlast_last_id)
    then have "keyBytes = popTrailingZeros (butlast keyBytes) @ replicate (Suc k) 0"
      using k by (metis append.assoc replicate_append_same replicate_Suc)
    moreover have "popTrailingZeros keyBytes = popTrailingZeros (butlast keyBytes)"
      using True by (subst popTrailingZeros.simps) simp
    ultimately show ?thesis by metis
  next
    case False
    then have "popTrailingZeros keyBytes = keyBytes"
      by (subst popTrailingZeros.simps) auto
    then have "keyBytes = popTrailingZeros keyBytes @ replicate 0 0" by simp
    then show ?thesis by blast
  qed
qed

lemma pad_popTrailingZeros:
  assumes "length keyBytes = 8"
  shows "(if length (popTrailingZeros keyBytes) < 8
          then popTrailingZeros keyBytes
                 @ drop (length (popTrailingZeros keyBytes)) (replicate 8 0)
          else popTrailingZeros keyBytes) = keyBytes"
proof -
  obtain k where k: "keyBytes = popTrailingZeros keyBytes @ replicate k 0"
    using popTrailingZeros_decomp by blast
  define p where "p = popTrailingZeros keyBytes"
  have len: "length p + k = 8" using k assms unfolding p_def by (metis length_append length_replicate)
  have "drop (length p) (replicate 8 (0::nat)) = replicate k 0"
    using len by (simp add: drop_replicate)
  then have "(if length p < 8 then p @ drop (length p) (replicate 8 0) else p) = p @ replicate k 0"
    using len by auto
  then show ?thesis using k unfolding p_def by simp
qed

lemma getKeyFromBinary_framed:
  "getKeyFromBinary bytesToNumber (pre @ (t # length payload # payload) @ post) (length pre) =
     (let result = (\<lambda>k. Inr \<lparr> decodedKey = k, keyLength = Some (length payload),
                                 byteLength = Some (length payload + 2) \<rparr>)
      in if t = KEY_TYPE_UNDEFINED then result Undefined
         else if t = KEY_TYPE_STRING then result (String (textDecoder_decode payload))
         else if t = KEY_TYPE_NUMBER then
           (let keyData = (if length payload < 8
                           then payload @ drop (length payload) (replicate 8 0)
                           else payload)
            in if length keyData \<noteq> 8 then Inl MustBe8Bytes
               else result (Number (bytesToNumber keyData)))
         else if t = KEY_TYPE_BOOLEAN then result (Boolean (byteAt payload 0 = Some 1))
         else if t = KEY_TYPE_DATE then
           (if length payload \<noteq> 8 then Inl MustBe8Bytes
            else result (Date (timeClip (bytesToNumber payload))))
         else Inl UnknownKeyType)"
proof -
  define B where "B = pre @ (t # length payload # payload) @ post"
  have t: "byteAt B (length pre) = Some t"
    by (simp add: B_def byteAt_def)
  have l: "byteAt B (length pre + 1) = Some (length payload)"
    by (simp add: B_def byteAt_def nth_append)
  have s: "slice B (length pre + 1 + 1) (length pre + 1 + 1 + length payload) = payload"
    by (simp add: B_def slice_def)
  show ?thesis
    unfolding B_def [symmetric] getKeyFromBinary_def Let_def t l option.case s
    by simp
qed

lemma key_codec_roundtrip_at:
  assumes "codecKey k"
    and "numberLibraryReadsBack numberToBytes bytesToNumber k"
  shows "\<exists>bs. getBinaryKeyData numberToBytes k = Inr bs
           \<and> getKeyFromBinary bytesToNumber (pre @ bs @ post) (length pre)
               = Inr \<lparr> decodedKey = k, keyLength = Some (length bs - 2),
                        byteLength = Some (length bs) \<rparr>"
proof (cases k)
  case Undefined
  have "getKeyFromBinary bytesToNumber (pre @ (KEY_TYPE_UNDEFINED # length ([]::nat list) # []) @ post)
          (length pre) = Inr \<lparr> decodedKey = Undefined, keyLength = Some 0, byteLength = Some 2 \<rparr>"
    by (subst getKeyFromBinary_framed) simp
  then show ?thesis using Undefined by simp
next
  case Null
  then show ?thesis using assms by simp
next
  case (Boolean b)
  have "getKeyFromBinary bytesToNumber
          (pre @ (KEY_TYPE_BOOLEAN # length [if b then 1 else (0::nat)] # [if b then 1 else 0]) @ post)
          (length pre) = Inr \<lparr> decodedKey = Boolean b, keyLength = Some 1, byteLength = Some 3 \<rparr>"
    by (subst getKeyFromBinary_framed)
       (simp add: byteAt_def KEY_TYPE_BOOLEAN_def KEY_TYPE_UNDEFINED_def KEY_TYPE_STRING_def
          KEY_TYPE_NUMBER_def)
  then show ?thesis using Boolean by simp
next
  case (Number n)
  define p where "p = popTrailingZeros (numberToBytes n)"
  have lib: "length (numberToBytes n) = 8" "bytesToNumber (numberToBytes n) = n"
    using assms(2) Number by simp_all
  have pad: "(if length p < 8 then p @ drop (length p) (replicate 8 0) else p) = numberToBytes n"
    unfolding p_def using lib(1) by (rule pad_popTrailingZeros)
  have "getKeyFromBinary bytesToNumber (pre @ (KEY_TYPE_NUMBER # length p # p) @ post)
          (length pre) = Inr \<lparr> decodedKey = Number n, keyLength = Some (length p),
                                 byteLength = Some (length p + 2) \<rparr>"
    by (subst getKeyFromBinary_framed)
       (simp add: pad lib Let_def KEY_TYPE_UNDEFINED_def KEY_TYPE_STRING_def KEY_TYPE_NUMBER_def)
  then show ?thesis using Number by (simp add: p_def Let_def)
next
  case (String s)
  have lib: "textDecoder_decode (textEncoder_encode s) = s"
    using assms(1) String text_roundtrip [of s] by simp
  have "getKeyFromBinary bytesToNumber
          (pre @ (KEY_TYPE_STRING # length (textEncoder_encode s) # textEncoder_encode s) @ post)
          (length pre)
        = Inr \<lparr> decodedKey = String s, keyLength = Some (length (textEncoder_encode s)),
                 byteLength = Some (length (textEncoder_encode s) + 2) \<rparr>"
    by (subst getKeyFromBinary_framed)
       (simp add: lib KEY_TYPE_UNDEFINED_def KEY_TYPE_STRING_def)
  then show ?thesis using String by (simp add: Let_def)
next
  case (Date t)
  have lib: "length (numberToBytes t) = 8" "bytesToNumber (numberToBytes t) = t"
    using assms(2) Date by simp_all
  have clip: "timeClip t = t" using assms(1) Date by simp
  have "getKeyFromBinary bytesToNumber
          (pre @ (KEY_TYPE_DATE # length (numberToBytes t) # numberToBytes t) @ post) (length pre)
        = Inr \<lparr> decodedKey = Date t, keyLength = Some (length (numberToBytes t)),
                 byteLength = Some (length (numberToBytes t) + 2) \<rparr>"
    by (subst getKeyFromBinary_framed)
       (simp add: lib clip KEY_TYPE_UNDEFINED_def KEY_TYPE_STRING_def KEY_TYPE_NUMBER_def
          KEY_TYPE_BOOLEAN_def KEY_TYPE_DATE_def)
  then show ?thesis using Date by (simp add: Let_def)
next
  case (Array xs)
  then show ?thesis using assms by simp
qed

text \<open>
  C3, as amended. For every supported key (\<open>undefined\<close>, a well-formed string that
  does not start with U+FEFF and has at most 255 encoded bytes, a finite number, a
  boolean, a date), wherever its encoding stands in a byte array, \<open>getKeyFromBinary\<close>
  reads back the key itself and the length of the encoding: the zero bytes popped off
  a number are put back by the decoder, and a date is written and read with all its 8
  bytes. Therefore two distinct supported keys have distinct encodings. For numbers and
  dates, \<open>numberToBytes\<close> of \<open>acebase-core\<close> is taken to give 8 bytes that
  \<open>bytesToNumber\<close> reads back.
\<close>

theorem key_codec_roundtrip_wellformed:
  assumes "codecKey k"
    and "numberLibraryReadsBack numberToBytes bytesToNumber k"
    and "codecKey k'"
    and "numberLibraryReadsBack numberToBytes bytesToNumber k'"
  shows "(\<exists>bs. getBinaryKeyData numberToBytes k = Inr bs
           \<and> getKeyFromBinary bytesToNumber (pre @ bs @ post) (length pre)
               = Inr \<lparr> decodedKey = k, keyLength = Some (length bs - 2),
                        byteLength = Some (length bs) \<rparr>)
       \<and> (k \<noteq> k' \<longrightarrow> getBinaryKeyData numberToBytes k \<noteq> getBinaryKeyData numberToBytes k')"
proof
  show "\<exists>bs. getBinaryKeyData numberToBytes k = Inr bs
           \<and> getKeyFromBinary bytesToNumber (pre @ bs @ post) (length pre)
               = Inr \<lparr> decodedKey = k, keyLength = Some (length bs - 2),
                        byteLength = Some (length bs) \<rparr>"
    using assms(1,2) by (rule key_codec_roundtrip_at)
  show "k \<noteq> k' \<longrightarrow> getBinaryKeyData numberToBytes k \<noteq> getBinaryKeyData numberToBytes k'"
  proof (intro impI notI)
    assume ne: "k \<noteq> k'"
      and eq: "getBinaryKeyData numberToBytes k = getBinaryKeyData numberToBytes k'"
    obtain bs where bs: "getBinaryKeyData numberToBytes k = Inr bs"
      "getKeyFromBinary bytesToNumber ([] @ bs @ []) (length ([]::nat list))
         = Inr \<lparr> decodedKey = k, keyLength = Some (length bs - 2), byteLength = Some (length bs) \<rparr>"
      using key_codec_roundtrip_at [OF assms(1,2), of "[]" "[]"] by blast
    obtain bs' where bs': "getBinaryKeyData numberToBytes k' = Inr bs'"
      "getKeyFromBinary bytesToNumber ([] @ bs' @ []) (length ([]::nat list))
         = Inr \<lparr> decodedKey = k', keyLength = Some (length bs' - 2), byteLength = Some (length bs') \<rparr>"
      using key_codec_roundtrip_at [OF assms(3,4), of "[]" "[]"] by blast
    have "bs = bs'" using eq bs(1) bs'(1) by simp
    then have "k = k'" using bs(2) bs'(2) by simp
    with ne show False by simp
  qed
qed

lemma example_encodings:
  "textEncoder_encode [0x61, 0xE9, 0x20AC, 0xD83D, 0xDE00]
     = [0x61, 0xC3, 0xA9, 0xE2, 0x82, 0xAC, 0xF0, 0x9F, 0x98, 0x80]"
  "textEncoder_encode [0xFEFF, 0x61] = [0xEF, 0xBB, 0xBF, 0x61]"
  "textEncoder_encode [0xD800] = [0xEF, 0xBF, 0xBD]"
  "textEncoder_encode [0xFFFD] = [0xEF, 0xBF, 0xBD]"
  by (simp_all add: textEncoder_encode_def utf8Bytes_def)

theorem key_codec_roundtrip_wellformed_witness:
  "codecKey (String [0x61, 0xE9, 0x20AC, 0xD83D, 0xDE00])
   \<and> codecKey (Number (Fin 3))
   \<and> numberLibraryReadsBack exampleNumberToBytes exampleBytesToNumber (Number (Fin 3))
   \<and> (\<exists>bs. getBinaryKeyData exampleNumberToBytes (String [0x61, 0xE9, 0x20AC, 0xD83D, 0xDE00]) = Inr bs
         \<and> getKeyFromBinary exampleBytesToNumber ([9] @ bs @ [7]) 1
             = Inr \<lparr> decodedKey = String [0x61, 0xE9, 0x20AC, 0xD83D, 0xDE00],
                      keyLength = Some (length bs - 2), byteLength = Some (length bs) \<rparr>)
   \<and> getBinaryKeyData exampleNumberToBytes (String [0x61, 0xE9, 0x20AC, 0xD83D, 0xDE00])
       \<noteq> getBinaryKeyData exampleNumberToBytes (Number (Fin 3))"
proof -
  have k: "codecKey (String [0x61, 0xE9, 0x20AC, 0xD83D, 0xDE00])"
    by (simp add: example_encodings(1))
  have k': "codecKey (Number (Fin 3))" by simp
  have lib: "numberLibraryReadsBack exampleNumberToBytes exampleBytesToNumber
               (String [0x61, 0xE9, 0x20AC, 0xD83D, 0xDE00])"
    "numberLibraryReadsBack exampleNumberToBytes exampleBytesToNumber (Number (Fin 3))"
    by (simp_all add: exampleNumberToBytes_def exampleBytesToNumber_def)
  show ?thesis
    using key_codec_roundtrip_wellformed [OF k lib(1) k' lib(2), of "[9]" "[7]"] k k' lib(2)
    by simp
qed

text \<open>
  C3 as stated fails for strings. The key made of U+FEFF and the letter a has 4 encoded
  bytes and is read back as the letter a alone, since the decoder drops a leading U+FEFF.
  The key made of the surrogate D800 alone and the key made of U+FFFD are distinct and
  have the same encoding, since the encoder replaces a surrogate that has no partner.
  And no trailing zero byte is popped off a date: the date of time value 0 is written
  with 8 zero bytes.
\<close>

theorem key_codec_string_counterexample:
  "getBinaryKeyData exampleNumberToBytes (String [0xFEFF, 0x61]) = Inr [1, 4, 0xEF, 0xBB, 0xBF, 0x61]
   \<and> getKeyFromBinary exampleBytesToNumber [1, 4, 0xEF, 0xBB, 0xBF, 0x61] 0
       = Inr \<lparr> decodedKey = String [0x61], keyLength = Some 4, byteLength = Some 6 \<rparr>
   \<and> String [0x61] \<noteq> String [0xFEFF, 0x61]
   \<and> getBinaryKeyData exampleNumberToBytes (String [0xD800])
       = getBinaryKeyData exampleNumberToBytes (String [0xFFFD])
   \<and> String [0xD800] \<noteq> String [0xFFFD]
   \<and> getBinaryKeyData exampleNumberToBytes (Date (Fin 0)) = Inr [4, 8, 0, 0, 0, 0, 0, 0, 0, 0]"
proof -
  have enc: "getBinaryKeyData exampleNumberToBytes (String [0xFEFF, 0x61])
      = Inr [1, 4, 0xEF, 0xBB, 0xBF, 0x61]"
    by (simp add: example_encodings(2) KEY_TYPE_STRING_def)
  have "utf8Decode 0 0 0 0x80 0xBF [0xEF, 0xBB, 0xBF, 0x61] = [0xFEFF, 0x61]"
    by (simp add: utf8Decode.simps)
  then have dtext: "textDecoder_decode [0xEF, 0xBB, 0xBF, 0x61] = [0x61]"
    by (simp add: textDecoder_decode_def serializeStream_def codePointsToString_def)
  have sl: "slice [1, 4, 0xEF, 0xBB, 0xBF, 0x61] (0 + 1 + 1) (0 + 1 + 1 + 4) = [0xEF, 0xBB, 0xBF, 0x61]"
    by (simp add: slice_def)
  have b0: "byteAt [1, 4, 0xEF, 0xBB, 0xBF, 0x61] 0 = Some 1"
    and b1: "byteAt [1, 4, 0xEF, 0xBB, 0xBF, 0x61] (0 + 1) = Some 4"
    by (simp_all add: byteAt_def)
  have dec: "getKeyFromBinary exampleBytesToNumber [1, 4, 0xEF, 0xBB, 0xBF, 0x61] 0
       = Inr \<lparr> decodedKey = String [0x61], keyLength = Some 4, byteLength = Some 6 \<rparr>"
    unfolding getKeyFromBinary_def Let_def b0 b1 option.case sl dtext
    by (simp add: KEY_TYPE_UNDEFINED_def KEY_TYPE_STRING_def)
  have same: "getBinaryKeyData exampleNumberToBytes (String [0xD800])
       = getBinaryKeyData exampleNumberToBytes (String [0xFFFD])"
    by (simp add: example_encodings(3,4))
  have date: "getBinaryKeyData exampleNumberToBytes (Date (Fin 0)) = Inr [4, 8, 0, 0, 0, 0, 0, 0, 0, 0]"
    by (simp add: exampleNumberToBytes_def KEY_TYPE_DATE_def eval_nat_numeral)
  show ?thesis using enc dec same date by simp
qed

section \<open>The free-space allocator: \<open>_requestFreeSpace\<close>\<close>

lemma foldl_blockLength:
  "foldl (\<lambda>total block. total + blockLength block) acc blocks = acc + sum_list (map blockLength blocks)"
  by (induction blocks arbitrary: acc) auto

lemma hd_insertSorted:
  "hd (insertSorted cmp x ys) = (if ys = [] \<or> cmp x (hd ys) < 0 then x else hd ys)"
  by (cases ys) auto

lemma compareLength_neg: "compareLength a b < 0 \<longleftrightarrow> blockLength a < blockLength b"
  by (simp add: compareLength_def)

lemma insertSorted_not_Nil: "insertSorted cmp x ys \<noteq> []"
  by (cases ys) auto

lemma set_insertSorted: "set (insertSorted cmp x ys) = insert x (set ys)"
  by (induction ys) auto

lemma hd_foldl_insertSorted:
  assumes "sortedPart \<noteq> [] \<or> xs \<noteq> []"
    and "\<forall>b \<in> set sortedPart. blockLength (hd sortedPart) \<le> blockLength b"
  shows "hd (foldl (\<lambda>sortedPart x. insertSorted compareLength x sortedPart) sortedPart xs)
           \<in> set sortedPart \<union> set xs
       \<and> (\<forall>b \<in> set sortedPart \<union> set xs.
             blockLength (hd (foldl (\<lambda>sortedPart x. insertSorted compareLength x sortedPart)
                                sortedPart xs)) \<le> blockLength b)"
  using assms
proof (induction xs arbitrary: sortedPart)
  case Nil
  then show ?case by simp
next
  case (Cons x xs)
  let ?next = "insertSorted compareLength x sortedPart"
  have ne: "?next \<noteq> [] \<or> xs \<noteq> []" by (simp add: insertSorted_not_Nil)
  have least: "\<forall>b \<in> set ?next. blockLength (hd ?next) \<le> blockLength b"
    using Cons.prems(2)
    by (cases sortedPart) (auto simp add: hd_insertSorted compareLength_neg set_insertSorted)
  show ?case
    using Cons.IH [OF ne least] by (auto simp add: set_insertSorted)
qed

lemma hd_sortWith_compareLength:
  assumes "xs \<noteq> []"
  shows "hd (sortWith compareLength xs) \<in> set xs
       \<and> (\<forall>b \<in> set xs. blockLength (hd (sortWith compareLength xs)) \<le> blockLength b)"
  unfolding sortWith_def using hd_foldl_insertSorted [of "[]" xs] assms by simp


text \<open>
  C5, as amended. For every allocator state and every request of \<open>n\<close> bytes: if some
  reclaimed region has length at least \<open>n\<close>, one of minimal such length is removed from
  the reclaimed list and returned; otherwise, if the reclaimed lengths sum to more than
  half the original byte length rounded to the nearest integer (\<open>Math.round\<close>, halves
  up), the request throws the rebuild-needed error; otherwise, if the free tail is at
  least \<open>n\<close>, the region at \<open>byteLength - freeSpace\<close> is returned and the decreased
  free length written to the header; otherwise, with auto-grow the total length grows by
  \<open>n\<close> minus the free tail (both header fields are written) and the region is carved,
  and without auto-grow the request rejects with the not-enough-space error. The header
  writes are those of the byte source, assumed to succeed where a region is returned.
\<close>

theorem requestFreeSpace_cases:
  fixes a :: "'st allocator" and n :: int
  defines "available \<equiv> filter (\<lambda>block. blockLength block \<ge> n) (reclaimed a)"
    and "wasted \<equiv> sum_list (map blockLength (reclaimed a))"
    and "tailIndex \<equiv> infoByteLength a - infoFreeSpace a"
  shows
  "(available \<noteq> [] \<longrightarrow>
      (\<exists>best. requestFreeSpace writeFn a n
                 = (Resolved best, a\<lparr> reclaimed := remove1 best (reclaimed a) \<rparr>)
          \<and> best \<in> set (reclaimed a) \<and> n \<le> blockLength best
          \<and> (\<forall>b \<in> set (reclaimed a). n \<le> blockLength b \<longrightarrow> blockLength best \<le> blockLength b)))
   \<and> (available = [] \<and> wasted > roundHalf (originalByteLength a) \<longrightarrow>
         requestFreeSpace writeFn a n = (Thrown TooMuchWaste, a))
   \<and> (available = [] \<and> wasted \<le> roundHalf (originalByteLength a) \<and> infoFreeSpace a \<ge> n
         \<and> writeFn (stored a) (writeByteLength [] 0 (infoFreeSpace a - n)) (infoFreeSpaceIndex a) = Inr st
       \<longrightarrow> requestFreeSpace writeFn a n
             = (Resolved \<lparr> blockIndex = tailIndex, blockLength = n \<rparr>,
                a\<lparr> infoFreeSpace := infoFreeSpace a - n, stored := st \<rparr>))
   \<and> (available = [] \<and> wasted \<le> roundHalf (originalByteLength a) \<and> infoFreeSpace a < n
         \<and> autoGrow a
         \<and> writeFn (stored a) (writeByteLength [] 0 (infoByteLength a + (n - infoFreeSpace a))) 0 = Inr st1
         \<and> writeFn st1 (writeByteLength [] 0 n) (infoFreeSpaceIndex a) = Inr st2
         \<and> writeFn st2 (writeByteLength [] 0 0) (infoFreeSpaceIndex a) = Inr st3
       \<longrightarrow> requestFreeSpace writeFn a n
             = (Resolved \<lparr> blockIndex = tailIndex, blockLength = n \<rparr>,
                a\<lparr> infoByteLength := infoByteLength a + (n - infoFreeSpace a),
                   infoFreeSpace := 0, stored := st3 \<rparr>))
   \<and> (available = [] \<and> wasted \<le> roundHalf (originalByteLength a) \<and> infoFreeSpace a < n
         \<and> \<not> autoGrow a
       \<longrightarrow> requestFreeSpace writeFn a n = (Rejected NotEnoughFreeSpace, a))"
proof (intro conjI impI)
  assume ne: "available \<noteq> []"
  define best where "best = hd (sortWith compareLength available)"
  have b: "best \<in> set available" "\<forall>b \<in> set available. blockLength best \<le> blockLength b"
    unfolding best_def using hd_sortWith_compareLength [OF ne] by simp_all
  have r: "requestFreeSpace writeFn a n = (Resolved best, a\<lparr> reclaimed := remove1 best (reclaimed a) \<rparr>)"
    using ne unfolding requestFreeSpace_def best_def available_def by (simp add: Let_def)
  show "\<exists>best. requestFreeSpace writeFn a n
                 = (Resolved best, a\<lparr> reclaimed := remove1 best (reclaimed a) \<rparr>)
          \<and> best \<in> set (reclaimed a) \<and> n \<le> blockLength best
          \<and> (\<forall>b \<in> set (reclaimed a). n \<le> blockLength b \<longrightarrow> blockLength best \<le> blockLength b)"
    using r b unfolding available_def by (intro exI [of _ best]) auto
next
  assume h: "available = [] \<and> wasted > roundHalf (originalByteLength a)"
  then show "requestFreeSpace writeFn a n = (Thrown TooMuchWaste, a)"
    unfolding requestFreeSpace_def available_def wasted_def
    by (simp add: Let_def foldl_blockLength)
next
  assume h: "available = [] \<and> wasted \<le> roundHalf (originalByteLength a) \<and> infoFreeSpace a \<ge> n
         \<and> writeFn (stored a) (writeByteLength [] 0 (infoFreeSpace a - n)) (infoFreeSpaceIndex a) = Inr st"
  then show "requestFreeSpace writeFn a n
             = (Resolved \<lparr> blockIndex = tailIndex, blockLength = n \<rparr>,
                a\<lparr> infoFreeSpace := infoFreeSpace a - n, stored := st \<rparr>)"
    unfolding requestFreeSpace_def available_def wasted_def tailIndex_def go_def
    by (simp add: Let_def foldl_blockLength)
next
  assume h: "available = [] \<and> wasted \<le> roundHalf (originalByteLength a) \<and> infoFreeSpace a < n
         \<and> autoGrow a
         \<and> writeFn (stored a) (writeByteLength [] 0 (infoByteLength a + (n - infoFreeSpace a))) 0 = Inr st1
         \<and> writeFn st1 (writeByteLength [] 0 n) (infoFreeSpaceIndex a) = Inr st2
         \<and> writeFn st2 (writeByteLength [] 0 0) (infoFreeSpaceIndex a) = Inr st3"
  then show "requestFreeSpace writeFn a n
             = (Resolved \<lparr> blockIndex = tailIndex, blockLength = n \<rparr>,
                a\<lparr> infoByteLength := infoByteLength a + (n - infoFreeSpace a),
                   infoFreeSpace := 0, stored := st3 \<rparr>)"
    unfolding requestFreeSpace_def available_def wasted_def tailIndex_def go_def growTree_def
    by (simp add: Let_def foldl_blockLength)
next
  assume h: "available = [] \<and> wasted \<le> roundHalf (originalByteLength a) \<and> infoFreeSpace a < n
         \<and> \<not> autoGrow a"
  then show "requestFreeSpace writeFn a n = (Rejected NotEnoughFreeSpace, a)"
    unfolding requestFreeSpace_def available_def wasted_def
    by (simp add: Let_def foldl_blockLength)
qed


theorem requestFreeSpace_cases_witness:
  "fst (requestFreeSpace arrayWriteFn exampleAllocator 200)
     = Resolved \<lparr>blockIndex = 900, blockLength = 300\<rparr>
   \<and> reclaimed (snd (requestFreeSpace arrayWriteFn exampleAllocator 200))
     = [\<lparr>blockIndex = 100, blockLength = 501\<rparr>]
   \<and> fst (requestFreeSpace arrayWriteFn (exampleAllocator\<lparr>originalByteLength := 1600\<rparr>) 600)
     = Thrown TooMuchWaste
   \<and> fst (requestFreeSpace arrayWriteFn exampleAllocator 600)
     = Resolved \<lparr>blockIndex = 1300, blockLength = 600\<rparr>
   \<and> infoFreeSpace (snd (requestFreeSpace arrayWriteFn exampleAllocator 600)) = 100
   \<and> fst (requestFreeSpace arrayWriteFn (exampleAllocator\<lparr>autoGrow := True\<rparr>) 800)
     = Resolved \<lparr>blockIndex = 1300, blockLength = 800\<rparr>
   \<and> infoByteLength (snd (requestFreeSpace arrayWriteFn (exampleAllocator\<lparr>autoGrow := True\<rparr>) 800))
     = 2100
   \<and> fst (requestFreeSpace arrayWriteFn exampleAllocator 800) = Rejected NotEnoughFreeSpace"
proof -
  let ?a = exampleAllocator
  let ?g = "exampleAllocator\<lparr>autoGrow := True\<rparr>"
  define s1 where "s1 = arrayWrite (stored ?a) (writeByteLength [] 0 (infoFreeSpace ?a - 600)) (infoFreeSpaceIndex ?a)"
  define g1 where "g1 = arrayWrite (stored ?g) (writeByteLength [] 0 (infoByteLength ?g + (800 - infoFreeSpace ?g))) 0"
  define g2 where "g2 = arrayWrite g1 (writeByteLength [] 0 800) (infoFreeSpaceIndex ?g)"
  define g3 where "g3 = arrayWrite g2 (writeByteLength [] 0 0) (infoFreeSpaceIndex ?g)"
  note T1 = requestFreeSpace_cases [of 200 ?a arrayWriteFn s1 g1 g2 g3]
  note T2 = requestFreeSpace_cases [of 600 "?a\<lparr>originalByteLength := 1600\<rparr>" arrayWriteFn s1 g1 g2 g3]
  note T3 = requestFreeSpace_cases [of 600 ?a arrayWriteFn s1 g1 g2 g3]
  note T4 = requestFreeSpace_cases [of 800 ?g arrayWriteFn s1 g1 g2 g3]
  note T5 = requestFreeSpace_cases [of 800 ?a arrayWriteFn s1 g1 g2 g3]
  have c1: "fst (requestFreeSpace arrayWriteFn ?a 200) = Resolved \<lparr>blockIndex = 900, blockLength = 300\<rparr>
     \<and> reclaimed (snd (requestFreeSpace arrayWriteFn ?a 200)) = [\<lparr>blockIndex = 100, blockLength = 501\<rparr>]"
    using T1 by (auto simp add: exampleAllocator_def)
  have c2: "fst (requestFreeSpace arrayWriteFn (?a\<lparr>originalByteLength := 1600\<rparr>) 600) = Thrown TooMuchWaste"
    using T2 by (simp add: exampleAllocator_def roundHalf_def)
  have c3: "fst (requestFreeSpace arrayWriteFn ?a 600) = Resolved \<lparr>blockIndex = 1300, blockLength = 600\<rparr>
     \<and> infoFreeSpace (snd (requestFreeSpace arrayWriteFn ?a 600)) = 100"
    using T3 by (simp add: exampleAllocator_def roundHalf_def arrayWriteFn_def s1_def)
  have c4: "fst (requestFreeSpace arrayWriteFn ?g 800) = Resolved \<lparr>blockIndex = 1300, blockLength = 800\<rparr>
     \<and> infoByteLength (snd (requestFreeSpace arrayWriteFn ?g 800)) = 2100"
    using T4 by (simp add: exampleAllocator_def roundHalf_def arrayWriteFn_def g1_def g2_def g3_def)
  have c5: "fst (requestFreeSpace arrayWriteFn ?a 800) = Rejected NotEnoughFreeSpace"
    using T5 by (simp add: exampleAllocator_def roundHalf_def)
  from c1 c2 c3 c4 c5 show ?thesis by simp
qed

text \<open>
  C5 as stated fails where the original length is odd: with 1601 original bytes and 801
  reclaimed bytes (more than 50 percent), a request that no reclaimed region can serve is
  carved from the tail instead of being refused.
\<close>

theorem requestFreeSpace_half_counterexample:
  "filter (\<lambda>block. blockLength block \<ge> 600) (reclaimed exampleAllocator) = []
   \<and> 2 * sum_list (map blockLength (reclaimed exampleAllocator)) > originalByteLength exampleAllocator
   \<and> fst (requestFreeSpace arrayWriteFn exampleAllocator 600)
       = Resolved \<lparr>blockIndex = 1300, blockLength = 600\<rparr>"
  by (simp add: exampleAllocator_def requestFreeSpace_def go_def arrayWriteFn_def roundHalf_def Let_def)

section \<open>The transaction engine: rollback in parallel mode\<close>






section \<open>A failed \<open>_rebuildLeaf\<close>\<close>

lemma example_offsets:
  "writeSignedOffset [] 0 11 True = Inr (map Some [0, 0, 0, 0, 0, 11])"
  "writeSignedOffset [] 0 5 True = Inr (map Some [0, 0, 0, 0, 0, 5])"
  by code_simp+

lemma example_queue:
  "rebuildLeaf_queue arrayWriteFn examplePlan =
     [ \<lparr> stepAction = (\<lambda>s. (Rejects NoSpaceInLeaf, s)),
         stepRollback = Some (\<lambda>s. (RollbackThrows ReferenceError, s)) \<rparr>,
       pointerStep arrayWriteFn (2, 5, 11),
       \<lparr> stepAction = (\<lambda>s. writeAction arrayWriteFn (map Some [7, 36]) 0 s),
         stepRollback = Some (\<lambda>s. (RollbackThrows TypeError, s)) \<rparr> ]"
  by (simp add: rebuildLeaf_queue_def examplePlan_def)

lemma pointerStep_array:
  assumes "writeSignedOffset [] 0 new True = Inr nb" "writeSignedOffset [] 0 old True = Inr ob"
  shows "stepAction (pointerStep arrayWriteFn (i, old, new)) s = (Resolves, arrayWrite s nb i)"
    and "stepRollback (pointerStep arrayWriteFn (i, old, new))
           = Some (\<lambda>s. (RollbackResolves, arrayWrite s ob i))"
  using assms by (simp_all add: pointerStep_def writeAction_def writeRollback_def arrayWriteFn_def)

lemma example_writes:
  "arrayWrite (map Some [7, 30, 0, 0, 0, 0, 0, 5, 1, 2, 3, 4, 5, 6]) (map Some [0, 0, 0, 0, 0, 11]) 2
     = map Some [7, 30, 0, 0, 0, 0, 0, 11, 1, 2, 3, 4, 5, 6]"
  "arrayWrite (map Some [7, 30, 0, 0, 0, 0, 0, 11, 1, 2, 3, 4, 5, 6]) (map Some [7, 36]) 0
     = map Some [7, 36, 0, 0, 0, 0, 0, 11, 1, 2, 3, 4, 5, 6]"
  "arrayWrite (map Some [7, 36, 0, 0, 0, 0, 0, 11, 1, 2, 3, 4, 5, 6]) (map Some [0, 0, 0, 0, 0, 5]) 2
     = map Some [7, 36, 0, 0, 0, 0, 0, 5, 1, 2, 3, 4, 5, 6]"
  by (simp_all add: js_put_def eval_nat_numeral)

lemmas example_ptr2 = pointerStep_array [OF example_offsets(1) example_offsets(2), of 2]

lemma example_start:
  "startActions (rebuildLeaf_queue arrayWriteFn examplePlan) exampleStored
     = (Inr [Rejects NoSpaceInLeaf, Resolves, Resolves],
        map Some [7, 36, 0, 0, 0, 0, 0, 11, 1, 2, 3, 4, 5, 6])"
  unfolding example_queue exampleStored_def
  by (simp add: example_ptr2(1) writeAction_def arrayWriteFn_def example_writes
        del: arrayWrite.simps list.map)

lemma example_states:
  "stateOf exampleSettled [Rejects NoSpaceInLeaf, Resolves, Resolves]
     = (\<lambda>i. if i = 0 then Failed else if i = 1 \<or> i = 2 then Success else Idle)"
  by (auto simp add: exampleSettled_def stateOf_def fun_eq_iff nth_Cons')

lemma example_failure:
  "firstFailure exampleSettled [Rejects NoSpaceInLeaf, Resolves, Resolves] = Some NoSpaceInLeaf"
  by (simp add: exampleSettled_def)

lemma example_rollbacks:
  "callRollbacks (rebuildLeaf_queue arrayWriteFn examplePlan)
       (stateOf exampleSettled [Rejects NoSpaceInLeaf, Resolves, Resolves]) 0
       (map Some [7, 36, 0, 0, 0, 0, 0, 11, 1, 2, 3, 4, 5, 6])
     = ([1, 2], [RollbackResolves], Some TypeError,
        map Some [7, 36, 0, 0, 0, 0, 0, 5, 1, 2, 3, 4, 5, 6])"
  unfolding example_queue example_states
  by (simp add: example_ptr2(2) example_writes del: arrayWrite.simps list.map)

lemma example_transaction:
  "execute_parallel (rebuildLeaf_queue arrayWriteFn examplePlan) exampleSettled exampleStored
      = \<lparr> txOutcome = Rejected TypeError, txRollbackError = None, txRolledBack = [1, 2],
          txState = map Some [7, 36, 0, 0, 0, 0, 0, 5, 1, 2, 3, 4, 5, 6] \<rparr>"
  unfolding execute_parallel_def example_start prod.case sum.case example_failure option.case
    example_rollbacks
  by simp

text \<open>
  On a leaf that has a next leaf, or has no parent, \<open>_rebuildLeaf\<close> rejects before it
  has made a transaction: none of its writes is made.
\<close>

lemma rebuildLeaf_rejects_before_transaction:
  assumes "nextLeafPointer plan \<noteq> None \<or> \<not> hasParentNode plan"
  shows "rebuildLeaf writeFn plan settled s
           = \<lparr> txOutcome = Rejected TypeError, txRollbackError = None, txRolledBack = [],
               txState = s \<rparr>"
  using assms by (auto simp add: rebuildLeaf_def)

text \<open>
  C1 (the code does not do what the claim says). The leaf is the last leaf of the tree
  and has a parent node and a previous leaf. \<open>_rebuildLeaf\<close> rejects, and so does
  \<open>add\<close>: the new leaf could not be written, the other two writes were made. The
  rollback of the pointer of the previous leaf restores it, the rollback of the parent
  node throws before it writes, so the stored parent node keeps the pointer to the new
  region (byte 36 where 30 was): the stored bytes are not those from before the
  mutation.
\<close>

theorem rebuildLeaf_failure_leaves_parent_changed:
  "nextLeafPointer examplePlan = None \<and> hasParentNode examplePlan
   \<and> txOutcome (rebuildLeaf arrayWriteFn examplePlan exampleSettled exampleStored)
       = Rejected TypeError
   \<and> txRolledBack (rebuildLeaf arrayWriteFn examplePlan exampleSettled exampleStored) = [1, 2]
   \<and> txState (rebuildLeaf arrayWriteFn examplePlan exampleSettled exampleStored)
       = map Some [7, 36, 0, 0, 0, 0, 0, 5, 1, 2, 3, 4, 5, 6]
   \<and> exampleStored = map Some [7, 30, 0, 0, 0, 0, 0, 5, 1, 2, 3, 4, 5, 6]"
proof -
  have plan: "nextLeafPointer examplePlan = None" "hasParentNode examplePlan"
    by (simp_all add: examplePlan_def)
  have "rebuildLeaf arrayWriteFn examplePlan exampleSettled exampleStored
      = \<lparr> txOutcome = Rejected TypeError, txRollbackError = None, txRolledBack = [1, 2],
          txState = map Some [7, 36, 0, 0, 0, 0, 0, 5, 1, 2, 3, 4, 5, 6] \<rparr>"
    unfolding rebuildLeaf_def example_transaction using plan by simp
  then show ?thesis using plan by (simp add: exampleStored_def)
qed

section \<open>The mutators of the binary tree: locks and transactions\<close>

lemma writeLeafAndSettle_effects:
  "fst (snd (writeLeafAndSettle c s effs leaf)) = effs @ [WriteLeafCalled leaf]"
  by (simp add: writeLeafAndSettle_def split: prod.splits option.splits)

lemma remove_update_no_lock:
  "LockCalled tid \<notin> set (fst (snd (binary_remove c info s k rp)))"
  "LockCalled tid \<notin> set (fst (snd (binary_update c info s k newRecordPointer current newMetadata)))"
  by (auto simp add: binary_remove_def binary_update_def writeLeafAndSettle_effects Let_def
        split: sum.splits option.splits prod.splits if_splits)

lemma example_isEqual: "isEqual (String (str ''a'')) (String (str ''a''))"
  by (simp add: isEqual_def)

text \<open>
  C7 (the code does not do what the claim says). \<open>remove\<close> and \<open>update\<close> never ask
  for the lock of the tree, whatever the tree, the key and the collaborators: no call
  of \<open>ThreadSafe.lock\<close> is among the calls they make. On the example leaf \<open>remove\<close>
  reads the leaf and writes it back with nothing in between, where \<open>add\<close> takes the
  lock first and releases it last.
\<close>

theorem remove_update_never_lock:
  "LockCalled tid \<notin> set (fst (snd (binary_remove c info s k rp)))
   \<and> LockCalled tid \<notin> set (fst (snd (binary_update c info s k newRecordPointer current newMetadata)))
   \<and> fst (snd (binary_remove exampleCollaborators exampleInfo exampleLeaf (String (str ''a'')) None))
       = [FindLeafCalled (String (str ''a'')), WriteLeafCalled []]
   \<and> fst (snd (binary_add exampleCollaborators exampleInfo exampleLeaf (String (str ''b'')) [2] []))
       = [LockCalled (str ''tree''), FindLeafCalled (String (str ''b'')),
          AddToLeafCalled (String (str ''b'')), LockReleased]"
proof -
  have r: "fst (snd (binary_remove exampleCollaborators exampleInfo exampleLeaf (String (str ''a'')) None))
       = [FindLeafCalled (String (str ''a'')), WriteLeafCalled []]"
    by (simp add: binary_remove_def exampleCollaborators_def exampleInfo_def exampleLeaf_def
          example_isEqual writeLeafAndSettle_def removeAt_def)
  have a: "fst (snd (binary_add exampleCollaborators exampleInfo exampleLeaf (String (str ''b'')) [2] []))
       = [LockCalled (str ''tree''), FindLeafCalled (String (str ''b'')),
          AddToLeafCalled (String (str ''b'')), LockReleased]"
    by (simp add: binary_add_def exampleCollaborators_def exampleInfo_def checkNewEntryArgs_def)
  show ?thesis by (intro conjI remove_update_no_lock r a)
qed

lemma example_update:
  "binary_update exampleCollaborators (exampleInfo\<lparr>treeId := None\<rparr>) exampleLeaf
       (String (str ''a'')) [2] None []
     = (CallResolves,
        [FindLeafCalled (String (str ''a'')),
         WriteLeafCalled [\<lparr> entryKey = String (str ''a''),
            entryValues = [\<lparr> recordPointer = [2], metadata = [] \<rparr>],
            entryHasExtData = False, entryExtDataLoaded = False \<rparr>]],
        [\<lparr> entryKey = String (str ''a''),
            entryValues = [\<lparr> recordPointer = [2], metadata = [] \<rparr>],
            entryHasExtData = False, entryExtDataLoaded = False \<rparr>])"
  by (simp add: binary_update_def exampleCollaborators_def exampleInfo_def exampleLeaf_def
        example_isEqual writeLeafAndSettle_def Let_def)

lemma example_add_throws:
  "binary_add exampleCollaborators (exampleInfo\<lparr>treeId := None\<rparr>) s (String (str ''b'')) [3] []
     = (CallThrows NoTreeId, [], s)"
  by (simp add: binary_add_def exampleInfo_def checkNewEntryArgs_def)

text \<open>
  C8 (the code does not do what the claim says). On the empty list of operations
  \<open>transaction\<close> rejects with a \<open>TypeError\<close> where it should resolve. When the second
  operation throws before it returns a promise (an \<open>add\<close> on a tree without id), the
  promise rejects and the operation put back in the list is the first one, which has
  been applied, and not the one that failed.
\<close>

theorem transaction_empty_and_throw:
  "trOutcome (transaction c info [] s) = Rejected TypeError
   \<and> trOperations (transaction c info [] s) = []
   \<and> trOutcome (transaction exampleCollaborators (exampleInfo\<lparr>treeId := None\<rparr>)
         [OpUpdate (String (str ''a'')) [2] None, OpAdd (String (str ''b'')) [3] []] exampleLeaf)
       = Rejected NoTreeId
   \<and> trOperations (transaction exampleCollaborators (exampleInfo\<lparr>treeId := None\<rparr>)
         [OpUpdate (String (str ''a'')) [2] None, OpAdd (String (str ''b'')) [3] []] exampleLeaf)
       = [OpUpdate (String (str ''a'')) [2] None]"
  by (simp add: transaction_def example_update example_add_throws)

text \<open>
  What holds of \<open>transaction\<close>: on a list that is not empty, when no operation throws
  before it returns its promise, the operations run in order, the promise resolves
  when all have succeeded, and at the first failure it rejects with the failed
  operation put back in front of those not run.
\<close>

lemma processNextOperation_in_order:
  assumes "operations \<noteq> []" "settleByPromise c info operations s"
  shows "processNextOperation c info previous operations effs s
           = operationsInOrder c info operations effs s"
  using assms
proof (induction operations arbitrary: previous effs s)
  case Nil
  then show ?case by simp
next
  case (Cons op operations)
  obtain r effs' s' where call: "callOperation c info s op = (r, effs', s')"
    by (cases "callOperation c info s op") auto
  show ?case
  proof (cases r)
    case CallResolves
    show ?thesis
    proof (cases "operations = []")
      case True
      then show ?thesis using call CallResolves by simp
    next
      case False
      have "settleByPromise c info operations s'"
        using Cons.prems(2) call CallResolves by simp
      then show ?thesis
        using Cons.IH [OF False] call CallResolves False by simp
    qed
  next
    case (CallRejects e)
    then show ?thesis using call by simp
  next
    case (CallThrows e)
    then show ?thesis using Cons.prems(2) call by simp
  qed
qed

lemma transaction_in_order:
  assumes "operations \<noteq> []" "settleByPromise c info operations s"
  shows "transaction c info operations s = operationsInOrder c info operations [] s"
  unfolding transaction_def using assms by (rule processNextOperation_in_order)


end
